theory Spec2Isabelle
  imports Complex_Main
begin

section \<open>The multi-stage orchestrator (ocpx/ocp\_multistage.py)\<close>

text \<open>
  Python objects are mutable and passed by reference, so the Stage objects live in a
  store: a list of object contents, an address being an index into it. The content type
  \<open>'s\<close> of a Stage is a parameter (stage.py is not part of the sources). The solver
  context of the bound Method (its attribute \<open>opti\<close>) has the parameter type \<open>'o\<close>.

  An exception is a value: \<open>AttributeError\<close> is what Python raises when \<open>solve\<close>
  reads \<open>self._method\<close> before \<open>method\<close> was called, \<open>Raised e\<close> is an exception
  \<open>e\<close> raised by a collaborator (a Method's \<open>transcribe\<close>, the solver), and
  \<open>InvalidReference\<close> stands for an address that designates no object, which a
  Python reference never does.
\<close>

type_synonym addr = nat

datatype 'e error = AttributeError | Raised 'e | InvalidReference

record 'o Method =
  opti :: 'o

datatype 'r OcpxSolution = OcpxSolution 'r

record ('s, 'o) OcpMultiStage =
  heap :: "'s list"
  stages :: "addr list"
  is_transcribed :: bool
  bound_method :: "'o Method option"

text \<open>\<open>__init__\<close>: no stage, not transcribed, and no attribute \<open>_method\<close> yet.\<close>

definition init :: "'s list \<Rightarrow> ('s, 'o) OcpMultiStage" where
  "init h = \<lparr>heap = h, stages = [], is_transcribed = False, bound_method = None\<rparr>"

text \<open>
  \<open>deepcopy(prev_stage)\<close>: a new object, at a fresh address, whose content equals the
  content of the object copied. A content of type \<open>'s\<close> is a value and holds no address,
  so the copy shares nothing with its original.
\<close>

definition deepcopy :: "addr \<Rightarrow> ('s, 'o) OcpMultiStage \<Rightarrow> addr \<times> ('s, 'o) OcpMultiStage" where
  "deepcopy p w = (length (heap w), w\<lparr>heap := heap w @ [heap w ! p]\<rparr>)"

text \<open>
  \<open>stage(prev_stage, **kwargs)\<close>. The constructor of Stage is the parameter \<open>Stage\<close>;
  the result is the address of the new Stage and the state with that address appended
  to \<open>stages\<close>.
\<close>

definition stage ::
  "('k \<Rightarrow> 's) \<Rightarrow> addr option \<Rightarrow> 'k \<Rightarrow> ('s, 'o) OcpMultiStage
    \<Rightarrow> 'e error + (addr \<times> ('s, 'o) OcpMultiStage)" where
  "stage Stage prev_stage kwargs w =
     (case prev_stage of
        None \<Rightarrow>
          (let s = length (heap w); w' = w\<lparr>heap := heap w @ [Stage kwargs]\<rparr>
           in Inr (s, w'\<lparr>stages := stages w' @ [s]\<rparr>))
      | Some p \<Rightarrow>
          if p < length (heap w) then
            (let (s, w') = deepcopy p w
             in Inr (s, w'\<lparr>stages := stages w' @ [s]\<rparr>))
          else Inl InvalidReference)"

text \<open>
  \<open>method(method)\<close> binds the Method (the name is a keyword of Isabelle, hence the
  suffix).
\<close>

definition method_op :: "'o Method \<Rightarrow> ('s, 'o) OcpMultiStage \<Rightarrow> ('s, 'o) OcpMultiStage" where
  "method_op m w = w\<lparr>bound_method := Some m\<rparr>"

text \<open>
  Modelled from the spec: a mutating operation of a Stage (stage.py is absent), such as
  adding a constraint or an objective term. It changes the content of the one object
  it is called on, by the function \<open>f\<close>.
\<close>

definition stage_update :: "addr \<Rightarrow> ('s \<Rightarrow> 's) \<Rightarrow> ('s, 'o) OcpMultiStage \<Rightarrow> ('s, 'o) OcpMultiStage" where
  "stage_update a f w = w\<lparr>heap := (heap w)[a := f (heap w ! a)]\<rparr>"

text \<open>The Stage objects registered, in registration order.\<close>

definition stage_objects :: "('s, 'o) OcpMultiStage \<Rightarrow> 's list" where
  "stage_objects w = map (\<lambda>a. heap w ! a) (stages w)"

text \<open>
  The loop \<open>for s in self.stages: s._method.transcribe(s, opti)\<close>. The parameter
  \<open>transcribe s o\<close> is the call \<open>s._method.transcribe(s, opti)\<close> on the context \<open>o\<close>:
  it returns the context as the call leaves it, and \<open>Some e\<close> when the call raised
  \<open>e\<close>. An exception ends the loop; what was registered before it stays registered.
\<close>

fun transcribe_loop ::
  "('s \<Rightarrow> 'o \<Rightarrow> 'e option \<times> 'o) \<Rightarrow> 's list \<Rightarrow> 'o \<Rightarrow> 'e option \<times> 'o" where
  "transcribe_loop transcribe [] ctx = (None, ctx)"
| "transcribe_loop transcribe (s # ss) ctx =
     (case transcribe s ctx of
        (Some e, ctx') \<Rightarrow> (Some e, ctx')
      | (None, ctx') \<Rightarrow> transcribe_loop transcribe ss ctx')"

text \<open>
  \<open>solve()\<close>. The parameter \<open>opti_solve\<close> is \<open>opti.solve()\<close>, the NLP Solver on the
  assembled context: it returns the raw result or raises, and it leaves the context
  as it is (the spec: the context is changed during transcription only).
\<close>

definition solve ::
  "('s \<Rightarrow> 'o \<Rightarrow> 'e option \<times> 'o) \<Rightarrow> ('o \<Rightarrow> 'e + 'r) \<Rightarrow> ('s, 'o) OcpMultiStage
    \<Rightarrow> ('e error + 'r OcpxSolution) \<times> ('s, 'o) OcpMultiStage" where
  "solve transcribe opti_solve w =
     (case bound_method w of
        None \<Rightarrow> (Inl AttributeError, w)
      | Some m \<Rightarrow>
          if \<not> is_transcribed w then
            (case transcribe_loop transcribe (stage_objects w) (opti m) of
               (Some e, ctx') \<Rightarrow> (Inl (Raised e), w\<lparr>bound_method := Some (m\<lparr>opti := ctx'\<rparr>)\<rparr>)
             | (None, ctx') \<Rightarrow>
                 (let w' = w\<lparr>bound_method := Some (m\<lparr>opti := ctx'\<rparr>), is_transcribed := True\<rparr>
                  in (case opti_solve ctx' of
                        Inl e \<Rightarrow> (Inl (Raised e), w')
                      | Inr r \<Rightarrow> (Inr (OcpxSolution r), w'))))
          else
            (case opti_solve (opti m) of
               Inl e \<Rightarrow> (Inl (Raised e), w)
             | Inr r \<Rightarrow> (Inr (OcpxSolution r), w)))"

text \<open>
  What the loop does when no call raises: every stage once, in list order, each call on
  the context the previous one left.
\<close>

definition transcribe_each_once :: "('s \<Rightarrow> 'o \<Rightarrow> 'e option \<times> 'o) \<Rightarrow> 's list \<Rightarrow> 'o \<Rightarrow> 'o" where
  "transcribe_each_once transcribe ss ctx = foldl (\<lambda>c s. snd (transcribe s c)) ctx ss"


section \<open>The basis engine (rockit/splines/micro\_spline.py)\<close>

text \<open>
  The functions are written against the arithmetic of the Math Engine only, whether its
  values are floating-point numbers or symbolic expressions. Here a value is an element
  of a field \<open>'a\<close> and the arithmetic is exact: the rounding of floating-point
  operations is not part of the model, and \<open>x / 0\<close> is \<open>0\<close> where IEEE arithmetic
  gives an infinity or a NaN (no division by zero occurs on strictly increasing
  breakpoints). A vector is a list. A matrix is the list of its columns, the order in
  which CasADi stores it, so \<open>hcat\<close> is concatenation; a row vector such as the
  coordinate vector \<open>k\<close> is kept as a list where the source indexes it linearly, and
  is the matrix of its one-entry columns where \<open>evalf\<close> takes it.

  The source checks no index. Each function below carries the domain on which every
  index of its body is in range (for the two single-index functions this is the spec's
  size invariant of a KnotVector, at least \<open>2*d+2\<close> knots, and the existence of the
  knots read); outside it CasADi or Python raises, or wraps a negative index around,
  the spec calls the behaviour undefined, and the model returns \<open>OutOfDomain\<close>.

  The values say nothing of the class of CasADi matrix that holds them (\<open>DM\<close>,
  \<open>MX\<close> or \<open>SX\<close>), and the source builds its accumulators as \<open>MX\<close>. The
  classes are followed separately, further below, by functions that go through the same
  lines of the source and give the class of each result, or the \<open>TypeError\<close> that
  Python raises when an \<open>MX\<close> meets an \<open>SX\<close>; \<open>RuntimeError\<close> is what
  \<open>evalf\<close> raises on an expression with free symbols.
\<close>

datatype spline_error = OutOfDomain | DimensionMismatch | TypeError | RuntimeError

text \<open>\<open>np.finfo(np.float64).eps\<close>, the machine epsilon of IEEE double precision.\<close>

definition eps :: "'a::field" where
  "eps = 1 / 2 ^ 52"

text \<open>
  Lines 9 to 15 of \<open>eval_basis_knotindex\<close>: the degree-0 starting vector, for a knot
  vector of \<open>n\<close> entries.
\<close>

definition basis0 :: "nat \<Rightarrow> nat \<Rightarrow> nat \<Rightarrow> 'a::field list" where
  "basis0 ind n d =
     (if ind = 0 then fold (\<lambda>j basis. basis[j := 1 + eps]) [0..<d + 1] (replicate n 0)
      else (replicate n 0)[min (ind + d) (n - d - 2) := 1 + eps])"

text \<open>
  \<open>basis[a:a+L] += v\<close> on a vector, where \<open>v\<close> has \<open>L\<close> entries: the entries from
  \<open>a\<close> on are increased by those of \<open>v\<close>, the others stay.
\<close>

definition slice_add :: "nat \<Rightarrow> 'a::field list \<Rightarrow> 'a list \<Rightarrow> 'a list" where
  "slice_add a v basis =
     take a basis @ map2 (+) (take (length v) (drop a basis)) v @ drop (a + length v) basis"

text \<open>
  The body of the loop of \<open>eval_basis_knotindex\<close> (lines 18 to 27): one step of the
  Cox-de Boor recursion, from degree \<open>e - 1\<close> to degree \<open>e\<close>, at the point \<open>x\<close>.
  The two slices assigned to have \<open>L\<close> entries each, as many as the index vector
  \<open>i\<close> on the domain of the function. The new \<open>basis\<close> is an \<open>MX\<close> in the
  source: its class, and those of the other matrices of the body, are followed by
  \<open>basis_step_class\<close> below. A knot span \<open>kid - ki\<close> of zero gives an infinity or
  a NaN in the source and 0 here; the knot vectors without such a span are the
  \<open>nondegenerate\<close> ones.
\<close>

definition basis_step :: "'a::field list \<Rightarrow> nat \<Rightarrow> 'a \<Rightarrow> nat \<Rightarrow> 'a list \<Rightarrow> 'a list" where
  "basis_step knots d x e basis =
     (let i = [d - e + 1..<length knots - d - 1];
          L = length knots - 2 * d - 2 + e;
          ki = map (\<lambda>j. knots ! j) i;
          kid = map (\<lambda>j. knots ! (j + e)) i;
          norm = map2 (/) (map (\<lambda>j. basis ! j) i) (map2 (-) kid ki);
          dbg_ref = map2 (*) (map (\<lambda>k. x - k) ki) norm;
          dbg_ref2 = map2 (*) (map (\<lambda>k. k - x) kid) norm;
          basis' = replicate (length knots - e - 1) 0
      in slice_add (d - e) (take L dbg_ref2) (slice_add (d - e + 1) (take L dbg_ref) basis'))"

text \<open>The loop \<open>for e in range(1, d + 1)\<close>.\<close>

definition basis_recursion :: "'a::field list \<Rightarrow> nat \<Rightarrow> 'a \<Rightarrow> 'a list \<Rightarrow> 'a list" where
  "basis_recursion knots d x basis = fold (basis_step knots d x) [1..<d + 1] basis"

definition eval_basis_knotindex ::
  "nat \<Rightarrow> 'a::field list \<Rightarrow> nat \<Rightarrow> spline_error + 'a list" where
  "eval_basis_knotindex ind knots d =
     (if 2 * d + 2 \<le> length knots \<and> ind + d < length knots then
        Inr (basis_recursion knots d (knots ! (ind + d)) (basis0 ind (length knots) d))
      else Inl OutOfDomain)"

text \<open>
  \<open>cs.linspace(a, b, nsteps)\<close> of CasADi: \<open>nsteps\<close> points from \<open>a\<close> to \<open>b\<close>, equally
  spaced.
\<close>

definition linspace :: "'a::field \<Rightarrow> 'a \<Rightarrow> nat \<Rightarrow> 'a list" where
  "linspace a b nsteps = map (\<lambda>j. a + of_nat j * ((b - a) / of_nat (nsteps - 1))) [0..<nsteps]"

text \<open>\<open>cs.linspace(DM(0),1,N+2)[1:-1].T\<close>: the \<open>N\<close> interior points.\<close>

definition interior_tau :: "nat \<Rightarrow> 'a::field list" where
  "interior_tau N = butlast (tl (linspace 0 1 (N + 2)))"

text \<open>
  Lines 34 to 37 of \<open>eval_basis_knotindex_subsampled\<close>: the starting matrix, \<open>N\<close>
  copies of one column.
\<close>

definition basis0_subsampled :: "nat \<Rightarrow> nat \<Rightarrow> nat \<Rightarrow> nat \<Rightarrow> 'a::field list list" where
  "basis0_subsampled ind N n d =
     replicate N ((replicate n 0)[min (ind + d) (n - d - 2) := 1 + eps])"

text \<open>
  The body of the loop of \<open>eval_basis_knotindex_subsampled\<close> (lines 41 to 52), on a
  matrix of \<open>N\<close> columns; \<open>x\<close> is the row of the \<open>N\<close> evaluation points. The vectors
  \<open>ki\<close> and \<open>kid\<close> have one column: CasADi repeats them over the columns of the
  other operand. The new \<open>basis\<close> is an \<open>MX\<close> here too, and the classes of the body
  are those of \<open>basis_step_class\<close>.
\<close>

definition basis_step_subsampled ::
  "'a::field list \<Rightarrow> nat \<Rightarrow> 'a list \<Rightarrow> nat \<Rightarrow> 'a list list \<Rightarrow> 'a list list" where
  "basis_step_subsampled knots d x e basis =
     (let i = [d - e + 1..<length knots - d - 1];
          L = length knots - 2 * d - 2 + e;
          ki = map (\<lambda>j. knots ! j) i;
          kid = map (\<lambda>j. knots ! (j + e)) i;
          norm = map (\<lambda>col. map2 (/) (map (\<lambda>j. col ! j) i) (map2 (-) kid ki)) basis;
          xr = map (\<lambda>xv. replicate L xv) x;
          dbg_ref = map2 (\<lambda>xc nc. map2 (*) (map2 (-) xc ki) nc) xr norm;
          dbg_ref2 = map2 (\<lambda>xc nc. map2 (*) (map2 (-) kid xc) nc) xr norm;
          basis' = replicate (length x) (replicate (length knots - e - 1) 0);
          basis'' = map2 (\<lambda>v col. slice_add (d - e + 1) (take L v) col) dbg_ref basis'
      in map2 (\<lambda>v col. slice_add (d - e) (take L v) col) dbg_ref2 basis'')"

text \<open>
  \<open>eval_basis_knotindex_subsampled(ind, N, knots, d)\<close> reads \<open>knots[ind+d+1]\<close> too.
  With \<open>N = 0\<close> the matrices have no column; \<open>eval_on_knots\<close> calls the function
  with \<open>N > 0\<close> only, and the domain of the model is \<open>N > 0\<close>.
\<close>

definition eval_basis_knotindex_subsampled ::
  "nat \<Rightarrow> nat \<Rightarrow> 'a::field list \<Rightarrow> nat \<Rightarrow> spline_error + 'a list list" where
  "eval_basis_knotindex_subsampled ind N knots d =
     (if 2 * d + 2 \<le> length knots \<and> ind + d + 1 < length knots \<and> 0 < N then
        (let tau = interior_tau N;
             x = map (\<lambda>t. knots ! (ind + d) * (1 - t) + t * knots ! (ind + d + 1)) tau
         in Inr (fold (basis_step_subsampled knots d x) [1..<d + 1]
                  (basis0_subsampled ind N (length knots) d)))
      else Inl OutOfDomain)"

text \<open>
  The loop of \<open>eval_on_knots\<close> over the knot indices, with the two lists \<open>basis\<close> and
  \<open>k\<close> it appends to: a block of columns and a block of points per call.
\<close>

fun eval_on_knots_loop ::
  "'a::field list \<Rightarrow> 'a list \<Rightarrow> nat \<Rightarrow> nat \<Rightarrow> 'a list \<Rightarrow> nat list
    \<Rightarrow> 'a list list list \<times> 'a list list
    \<Rightarrow> spline_error + ('a list list list \<times> 'a list list)" where
  "eval_on_knots_loop xi knots d subsamples tau [] (basis, k) = Inr (basis, k)"
| "eval_on_knots_loop xi knots d subsamples tau (i # rest) (basis, k) =
     (case eval_basis_knotindex i knots d of
        Inl err \<Rightarrow> Inl err
      | Inr b \<Rightarrow>
          if subsamples > 0 \<and> i < length knots - 2 * d - 1 then
            (case eval_basis_knotindex_subsampled i subsamples knots d of
               Inl err \<Rightarrow> Inl err
             | Inr bs \<Rightarrow>
                 eval_on_knots_loop xi knots d subsamples tau rest
                   (basis @ [[b]] @ [bs],
                    k @ [[xi ! i]] @ [map (\<lambda>t. xi ! i * (1 - t) + t * xi ! (i + 1)) tau]))
          else
            eval_on_knots_loop xi knots d subsamples tau rest
              (basis @ [[b]], k @ [[xi ! i]]))"

text \<open>
  \<open>try: m = evalf(m) except: pass\<close>. The parameter \<open>evalf\<close> is the numeric reduction
  of the Math Engine: it returns the reduced matrix, or raises.
\<close>

definition try_evalf :: "('m \<Rightarrow> 'x + 'm) \<Rightarrow> 'm \<Rightarrow> 'm" where
  "try_evalf evalf m = (case evalf m of Inr v \<Rightarrow> v | Inl err \<Rightarrow> m)"

text \<open>
  \<open>eval_on_knots(xi, d, subsamples)\<close> returns the pair \<open>(k, basis)\<close>; \<open>k\<close> is a matrix
  of one row. The source reads \<open>xi[0]\<close> and \<open>xi[-1]\<close>, which are out of range on an empty
  \<open>xi\<close>.
\<close>

definition eval_on_knots ::
  "('a::field list list \<Rightarrow> 'x + 'a list list) \<Rightarrow> 'a list \<Rightarrow> nat \<Rightarrow> nat
    \<Rightarrow> spline_error + ('a list list \<times> 'a list list)" where
  "eval_on_knots evalf xi d subsamples =
     (if xi = [] then Inl OutOfDomain
      else
        (let knots = replicate d (xi ! 0) @ xi @ replicate d (last xi);
             tau = interior_tau subsamples
         in case eval_on_knots_loop xi knots d subsamples tau [0..<length knots - 2 * d] ([], []) of
              Inl err \<Rightarrow> Inl err
            | Inr (basis, k) \<Rightarrow>
                Inr (try_evalf evalf (map (\<lambda>v. [v]) (concat k)),
                     try_evalf evalf (concat basis))))"

text \<open>
  The elementwise product \<open>x * y\<close> of CasADi on two matrices of \<open>r\<close> rows each. Equal
  numbers of columns: entry by entry. Else, when one operand is a scalar (one row, one
  column), it multiplies every entry of the other. Else, when neither is empty and the
  number of columns of one divides that of the other, the narrower one is repeated
  horizontally. Else CasADi raises a dimension mismatch.
\<close>

definition cs_times :: "nat \<Rightarrow> 'a::field list list \<Rightarrow> 'a list list \<Rightarrow> spline_error + 'a list list" where
  "cs_times r x y =
     (if length x = length y then Inr (map2 (map2 (*)) x y)
      else if r = 1 \<and> length x = 1 then Inr (map (map (\<lambda>v. hd (hd x) * v)) y)
      else if r = 1 \<and> length y = 1 then Inr (map (map (\<lambda>v. v * hd (hd y))) x)
      else if r \<noteq> 0 \<and> x \<noteq> [] \<and> y \<noteq> [] \<and> length x mod length y = 0 then
        Inr (map2 (map2 (*)) x (concat (replicate (length x div length y) y)))
      else if r \<noteq> 0 \<and> x \<noteq> [] \<and> y \<noteq> [] \<and> length y mod length x = 0 then
        Inr (map2 (map2 (*)) (concat (replicate (length y div length x) x)) y)
      else Inl DimensionMismatch)"

text \<open>
  \<open>bspline_derivative(c, xi, d)\<close>. The matrix \<open>c\<close> has one column per coefficient
  (its rows are the dimensions) and \<open>xi\<close> is a row vector. \<open>c.shape[0]\<close> is the length of
  a column. The reads \<open>xi[0]\<close>, \<open>xi[-1]\<close> and \<open>c[:,1:]\<close> want \<open>xi\<close> and \<open>c\<close> not
  empty, and \<open>repmat(., 1, d-1)\<close> wants \<open>d\<close> at least 1.
\<close>

definition bspline_derivative ::
  "'a::field list list \<Rightarrow> 'a list \<Rightarrow> nat \<Rightarrow> spline_error + 'a list list" where
  "bspline_derivative c xi d =
     (if d = 0 \<or> xi = [] \<or> c = [] then Inl OutOfDomain
      else
        (let delta_xi = map2 (-) (tl xi @ replicate (d - 1) (last xi))
                                 (replicate (d - 1) (xi ! 0) @ butlast xi);
             scale = map (\<lambda>v. of_nat d / v) delta_xi
         in cs_times (length (hd c)) (map (\<lambda>v. replicate (length (hd c)) v) scale)
              (map2 (map2 (-)) (tl c) (butlast c))))"


subsection \<open>The classes of the matrices\<close>

text \<open>
  A CasADi matrix is a \<open>DM\<close> (numbers), an \<open>MX\<close> (an expression graph; the flag
  tells whether it has free symbols) or an \<open>SX\<close> (scalar expressions). A binary
  operation, or a concatenation, of a \<open>DM\<close> and another matrix has the class of the
  other matrix; of two \<open>MX\<close> it is an \<open>MX\<close>, with free symbols when one of the two
  has some; of two \<open>SX\<close> an \<open>SX\<close>; an \<open>MX\<close> and an \<open>SX\<close> do not combine.
\<close>

datatype cs_class = DM | MX bool | SX

fun cs_binary :: "cs_class \<Rightarrow> cs_class \<Rightarrow> spline_error + cs_class" where
  "cs_binary DM c = Inr c"
| "cs_binary c DM = Inr c"
| "cs_binary (MX s) (MX t) = Inr (MX (s \<or> t))"
| "cs_binary SX SX = Inr SX"
| "cs_binary (MX s) SX = Inl TypeError"
| "cs_binary SX (MX t) = Inl TypeError"

text \<open>One statement after another: an exception of the first ends the sequence.\<close>

definition cs_bind :: "spline_error + 'a \<Rightarrow> ('a \<Rightarrow> spline_error + 'b) \<Rightarrow> spline_error + 'b" where
  "cs_bind m f = (case m of Inl err \<Rightarrow> Inl err | Inr v \<Rightarrow> f v)"

text \<open>
  The classes in the body of the loop (lines 20 to 27, and 43 to 52): \<open>kc\<close> is the
  class of \<open>knots\<close>, \<open>xc\<close> that of \<open>x\<close> and \<open>bc\<close> that of \<open>basis\<close> on entry.
  The new \<open>basis\<close> is \<open>MX(...)\<close>, an \<open>MX\<close> without symbols, and the two
  \<open>+=\<close> add \<open>dbg_ref\<close> and \<open>dbg_ref2\<close> to slices of it.
\<close>

definition basis_step_class :: "cs_class \<Rightarrow> cs_class \<Rightarrow> cs_class \<Rightarrow> spline_error + cs_class" where
  "basis_step_class kc xc bc =
     cs_bind (cs_binary kc kc) (\<lambda>span.
     cs_bind (cs_binary bc span) (\<lambda>norm.
     cs_bind (cs_binary xc kc) (\<lambda>xk.
     cs_bind (cs_binary xk norm) (\<lambda>dbg_ref.
     cs_bind (cs_binary kc xc) (\<lambda>kx.
     cs_bind (cs_binary kx norm) (\<lambda>dbg_ref2.
     cs_bind (cs_binary (MX False) dbg_ref) (\<lambda>basis'.
     cs_binary basis' dbg_ref2)))))))"

text \<open>The loop \<open>for e in range(1, d + 1)\<close>: the body \<open>d\<close> times.\<close>

fun basis_recursion_class :: "cs_class \<Rightarrow> cs_class \<Rightarrow> nat \<Rightarrow> cs_class \<Rightarrow> spline_error + cs_class" where
  "basis_recursion_class kc xc 0 bc = Inr bc"
| "basis_recursion_class kc xc (Suc n) bc =
     (case basis_step_class kc xc bc of
        Inl err \<Rightarrow> Inl err
      | Inr bc' \<Rightarrow> basis_recursion_class kc xc n bc')"

text \<open>
  \<open>eval_basis_knotindex\<close>: the starting vector is made of Python floats, a \<open>DM\<close>,
  and \<open>x = knots[ind+d]\<close> has the class of \<open>knots\<close>.
\<close>

definition eval_basis_knotindex_class :: "cs_class \<Rightarrow> nat \<Rightarrow> spline_error + cs_class" where
  "eval_basis_knotindex_class kc d = basis_recursion_class kc kc d DM"

text \<open>
  \<open>eval_basis_knotindex_subsampled\<close>: the starting matrix and \<open>tau\<close> are \<open>DM\<close>,
  and \<open>x = knots[ind+d]*(1-tau)+tau*knots[ind+d+1]\<close>.
\<close>

definition eval_basis_knotindex_subsampled_class :: "cs_class \<Rightarrow> nat \<Rightarrow> spline_error + cs_class" where
  "eval_basis_knotindex_subsampled_class kc d =
     cs_bind (cs_binary kc DM) (\<lambda>a.
     cs_bind (cs_binary DM kc) (\<lambda>b.
     cs_bind (cs_binary a b) (\<lambda>xc.
     basis_recursion_class kc xc d DM)))"

text \<open>\<open>hcat\<close> and \<open>horzcat\<close> of a list of matrices.\<close>

fun hcat_class :: "cs_class list \<Rightarrow> spline_error + cs_class" where
  "hcat_class [] = Inr DM"
| "hcat_class (c # cs) =
     (case hcat_class cs of Inl err \<Rightarrow> Inl err | Inr c' \<Rightarrow> cs_binary c c')"

text \<open>
  The loop of \<open>eval_on_knots\<close>, with the classes of the entries of the lists \<open>basis\<close>
  and \<open>k\<close>; \<open>xc\<close> is the class of \<open>xi\<close>, \<open>kc\<close> that of \<open>knots\<close> and \<open>numel\<close>
  is \<open>knots.numel()\<close>.
\<close>

fun eval_on_knots_loop_class ::
  "cs_class \<Rightarrow> cs_class \<Rightarrow> nat \<Rightarrow> nat \<Rightarrow> nat \<Rightarrow> nat list \<Rightarrow> cs_class list \<times> cs_class list
    \<Rightarrow> spline_error + (cs_class list \<times> cs_class list)" where
  "eval_on_knots_loop_class xc kc d subsamples numel [] (basis, k) = Inr (basis, k)"
| "eval_on_knots_loop_class xc kc d subsamples numel (i # rest) (basis, k) =
     (case eval_basis_knotindex_class kc d of
        Inl err \<Rightarrow> Inl err
      | Inr b \<Rightarrow>
          if subsamples > 0 \<and> i < numel - 2 * d - 1 then
            (case cs_bind (cs_binary xc DM) (\<lambda>a. cs_bind (cs_binary DM xc) (cs_binary a)) of
               Inl err \<Rightarrow> Inl err
             | Inr kk \<Rightarrow>
                 (case eval_basis_knotindex_subsampled_class kc d of
                    Inl err \<Rightarrow> Inl err
                  | Inr bs \<Rightarrow>
                      eval_on_knots_loop_class xc kc d subsamples numel rest
                        (basis @ [b] @ [bs], k @ [xc] @ [kk])))
          else
            eval_on_knots_loop_class xc kc d subsamples numel rest (basis @ [b], k @ [xc]))"

text \<open>
  \<open>evalf\<close> of CasADi on a matrix with its class: a \<open>DM\<close> or an \<open>MX\<close> without free
  symbols is evaluated to the \<open>DM\<close> of its values; an \<open>MX\<close> with free symbols
  raises, and an \<open>SX\<close> is not accepted.
\<close>

definition evalf_typed :: "cs_class \<times> 'm \<Rightarrow> spline_error + cs_class \<times> 'm" where
  "evalf_typed cm =
     (case fst cm of
        DM \<Rightarrow> Inr (DM, snd cm)
      | MX s \<Rightarrow> if s then Inl RuntimeError else Inr (DM, snd cm)
      | SX \<Rightarrow> Inl TypeError)"

text \<open>
  \<open>eval_on_knots\<close> on breakpoints of class \<open>xc\<close>, values and classes together: the
  values are those of the loop above, each result carries its class, and an exception
  of the class functions is an exception of the call.
\<close>

definition eval_on_knots_typed ::
  "cs_class \<Rightarrow> 'a::field list \<Rightarrow> nat \<Rightarrow> nat
    \<Rightarrow> spline_error + ((cs_class \<times> 'a list list) \<times> (cs_class \<times> 'a list list))" where
  "eval_on_knots_typed xc xi d subsamples =
     (if xi = [] then Inl OutOfDomain
      else
        (let knots = replicate d (xi ! 0) @ xi @ replicate d (last xi);
             tau = interior_tau subsamples
         in case eval_on_knots_loop xi knots d subsamples tau [0..<length knots - 2 * d] ([], []) of
              Inl err \<Rightarrow> Inl err
            | Inr (basis, k) \<Rightarrow>
                cs_bind (hcat_class [xc, xc, xc]) (\<lambda>kc.
                cs_bind (eval_on_knots_loop_class xc kc d subsamples (length knots)
                           [0..<length knots - 2 * d] ([], [])) (\<lambda>(basis_c, k_c).
                cs_bind (hcat_class basis_c) (\<lambda>bc.
                cs_bind (hcat_class k_c) (\<lambda>kk.
                Inr (try_evalf evalf_typed (kk, map (\<lambda>v. [v]) (concat k)),
                     try_evalf evalf_typed (bc, concat basis))))))))"

subsection \<open>Notions of the specification\<close>

text \<open>
  The degree-0 basis in the spec's words, without the perturbation: 1 at the slot
  \<open>index + d\<close> clamped to the last valid interior slot, and for index 0 at the first
  \<open>d + 1\<close> slots; 0 elsewhere.
\<close>

definition degree0_basis :: "nat \<Rightarrow> nat \<Rightarrow> nat \<Rightarrow> 'a::field list" where
  "degree0_basis ind n d =
     map (\<lambda>j. if (if ind = 0 then j \<le> d else j = min (ind + d) (n - d - 2)) then 1 else 0)
       [0..<n]"

text \<open>
  The Cox-de Boor recursion in the spec's words. Entry \<open>j\<close> of the degree-\<open>e\<close>
  vector, at the point \<open>x\<close>, from a degree-0 vector \<open>seed\<close>: over the window of
  active indices \<open>i\<close> of step \<open>e\<close>, from \<open>d - e + 1\<close> to \<open>numel - d - 2\<close>, the
  left ratio \<open>(x - k_i) / (k_{i+e} - k_i)\<close> times entry \<open>i\<close> of the degree
  \<open>e - 1\<close> goes to slot \<open>i\<close>, and the right ratio
  \<open>(k_{i+e} - x) / (k_{i+e} - k_i)\<close> times the same entry goes to slot \<open>i - 1\<close>.
  Slot \<open>j\<close> so receives the left term of \<open>i = j\<close> and the right term of
  \<open>i = j + 1\<close>.
\<close>

fun cox_de_boor :: "'a::field list \<Rightarrow> nat \<Rightarrow> 'a \<Rightarrow> 'a list \<Rightarrow> nat \<Rightarrow> nat \<Rightarrow> 'a" where
  "cox_de_boor knots d x seed 0 j = seed ! j"
| "cox_de_boor knots d x seed (Suc e) j =
     (if d - Suc e + 1 \<le> j \<and> j < length knots - d - 1
      then (x - knots ! j) / (knots ! (j + Suc e) - knots ! j) * cox_de_boor knots d x seed e j
      else 0)
   + (if d - Suc e + 1 \<le> j + 1 \<and> j + 1 < length knots - d - 1
      then (knots ! (j + 1 + Suc e) - x) / (knots ! (j + 1 + Suc e) - knots ! (j + 1))
             * cox_de_boor knots d x seed e (j + 1)
      else 0)"

text \<open>
  The spec's \<open>xi_padded\<close>: the breakpoints with the first and the last one repeated
  \<open>d - 1\<close> more times.
\<close>

definition xi_padded :: "'a list \<Rightarrow> nat \<Rightarrow> 'a list" where
  "xi_padded xi d = replicate (d - 1) (xi ! 0) @ xi @ replicate (d - 1) (last xi)"

text \<open>
  Applying the derivative operator repeatedly, on the same breakpoints, from degree \<open>d\<close>
  down to degree 0.
\<close>

fun derivative_chain :: "'a::field list list \<Rightarrow> 'a list \<Rightarrow> nat \<Rightarrow> spline_error + 'a list list" where
  "derivative_chain c xi 0 = Inr c"
| "derivative_chain c xi (Suc d) =
     (case bspline_derivative c xi (Suc d) of
        Inl err \<Rightarrow> Inl err
      | Inr c' \<Rightarrow> derivative_chain c' xi d)"

text \<open>
  The knot spans the recursion divides by are not zero: for every degree \<open>e\<close> from 1
  to \<open>d\<close> and every index \<open>j\<close> of the window of that step.
\<close>

definition nondegenerate :: "'a list \<Rightarrow> nat \<Rightarrow> bool" where
  "nondegenerate knots d \<longleftrightarrow>
     (\<forall>e \<in> {1..d}. \<forall>j \<in> {d - e + 1..<length knots - d - 1}. knots ! (j + e) \<noteq> knots ! j)"


subsection \<open>Properties of the orchestrator\<close>

lemma transcribe_loop_ok:
  "fst (transcribe_loop transcribe ss ctx) = None \<Longrightarrow>
   transcribe_loop transcribe ss ctx = (None, transcribe_each_once transcribe ss ctx)"
proof (induction ss arbitrary: ctx)
  case Nil
  then show ?case by (simp add: transcribe_each_once_def)
next
  case (Cons s ss)
  obtain r c where sc: "transcribe s ctx = (r, c)" by (cases "transcribe s ctx")
  show ?case
  proof (cases r)
    case None
    with Cons sc show ?thesis by (simp add: transcribe_each_once_def)
  next
    case (Some e)
    with Cons.prems sc show ?thesis by simp
  qed
qed

lemma solve_untranscribed_ok:
  assumes "bound_method w = Some m" and "\<not> is_transcribed w"
    and "fst (transcribe_loop transcribe (stage_objects w) (opti m)) = None"
  shows "solve transcribe opti_solve w =
    (case opti_solve (transcribe_each_once transcribe (stage_objects w) (opti m)) of
       Inl e \<Rightarrow> Inl (Raised e) | Inr r \<Rightarrow> Inr (OcpxSolution r),
     w\<lparr>bound_method :=
          Some (m\<lparr>opti := transcribe_each_once transcribe (stage_objects w) (opti m)\<rparr>),
       is_transcribed := True\<rparr>)"
  using assms transcribe_loop_ok [OF assms(3)]
  by (simp add: solve_def Let_def split: sum.splits)

lemma solve_transcribed:
  assumes "is_transcribed w"
  shows "solve transcribe opti_solve w =
    (case bound_method w of
       None \<Rightarrow> Inl AttributeError
     | Some m \<Rightarrow> (case opti_solve (opti m) of
         Inl e \<Rightarrow> Inl (Raised e) | Inr r \<Rightarrow> Inr (OcpxSolution r)),
     w)"
  using assms by (simp add: solve_def split: option.splits sum.splits)

lemma solve_untranscribed_raises:
  assumes "bound_method w = Some m" and "\<not> is_transcribed w"
    and "transcribe_loop transcribe (stage_objects w) (opti m) = (Some e, ctx')"
  shows "solve transcribe opti_solve w =
    (Inl (Raised e), w\<lparr>bound_method := Some (m\<lparr>opti := ctx'\<rparr>)\<rparr>)"
  using assms by (simp add: solve_def)

text \<open>
  Claim C1. On an orchestrator with a bound Method that is not yet transcribed, and
  whose transcribe calls all return, the first \<open>solve()\<close> leaves in the Method's context
  what calling transcribe once on every registered stage, in registration order, leaves
  there, and sets \<open>is_transcribed\<close>; nothing else of the state changes. A second
  \<open>solve()\<close> on that state returns the same state and the same result whatever
  transcribe function it is given: it transcribes nothing, so the context, with the
  decision variables registered in it, is the one of the first call, and the Solution
  is the same.
\<close>

theorem solve_transcribes_once:
  assumes "bound_method w = Some m" and "\<not> is_transcribed w"
    and "fst (transcribe_loop transcribe (stage_objects w) (opti m)) = None"
  shows "snd (solve transcribe opti_solve w) =
           w\<lparr>bound_method :=
                Some (m\<lparr>opti := transcribe_each_once transcribe (stage_objects w) (opti m)\<rparr>),
             is_transcribed := True\<rparr>
       \<and> solve transcribe2 opti_solve (snd (solve transcribe opti_solve w)) =
           solve transcribe opti_solve w"
  by (simp add: solve_untranscribed_ok [OF assms] solve_transcribed split: sum.splits)

theorem solve_transcribes_once_witness:
  "bound_method \<lparr>heap = [''s0'', ''s1''], stages = [0, 1], is_transcribed = False,
      bound_method = Some \<lparr>opti = []\<rparr>\<rparr> = Some \<lparr>opti = []\<rparr>
   \<and> \<not> is_transcribed \<lparr>heap = [''s0'', ''s1''], stages = [0, 1], is_transcribed = False,
      bound_method = Some \<lparr>opti = []\<rparr>\<rparr>
   \<and> fst (transcribe_loop (\<lambda>s c. (None :: unit option, c @ [s])) [''s0'', ''s1''] []) = None
   \<and> snd (solve (\<lambda>s c. (None :: unit option, c @ [s])) (\<lambda>c. Inr (length c) :: unit + nat)
        \<lparr>heap = [''s0'', ''s1''], stages = [0, 1], is_transcribed = False,
         bound_method = Some \<lparr>opti = []\<rparr>\<rparr>) =
      \<lparr>heap = [''s0'', ''s1''], stages = [0, 1], is_transcribed = True,
       bound_method = Some \<lparr>opti = [''s0'', ''s1'']\<rparr>\<rparr>
   \<and> solve (\<lambda>s c. (Some (), c)) (\<lambda>c. Inr (length c) :: unit + nat)
        \<lparr>heap = [''s0'', ''s1''], stages = [0, 1], is_transcribed = True,
         bound_method = Some \<lparr>opti = [''s0'', ''s1'']\<rparr>\<rparr> =
      (Inr (OcpxSolution 2),
       \<lparr>heap = [''s0'', ''s1''], stages = [0, 1], is_transcribed = True,
        bound_method = Some \<lparr>opti = [''s0'', ''s1'']\<rparr>\<rparr>)"
  using solve_transcribes_once
    [where w = "\<lparr>heap = [''s0'', ''s1''], stages = [0, 1], is_transcribed = False,
          bound_method = Some \<lparr>opti = []\<rparr>\<rparr>"
       and m = "\<lparr>opti = []\<rparr>" and transcribe = "\<lambda>s c. (None :: unit option, c @ [s])"
       and ?transcribe2.0 = "\<lambda>s c. (Some (), c)"
       and opti_solve = "\<lambda>c. Inr (length c) :: unit + nat"]
  by (simp add: stage_objects_def transcribe_each_once_def solve_def)

text \<open>
  Claim C6. When a transcribe call raises during a \<open>solve()\<close> on an orchestrator that
  is not yet transcribed, \<open>solve()\<close> raises that exception and \<open>is_transcribed\<close> is
  still false; the stage list is unchanged and the context is as the failed loop left
  it. The next \<open>solve()\<close> runs the loop again over all registered stages, from the first
  one, on that context: when its calls all return, it leaves the orchestrator
  transcribed with every stage transcribed once, in order, by the retry.
\<close>

theorem failed_transcription_not_marked:
  assumes "bound_method w = Some m" and "\<not> is_transcribed w"
    and "transcribe_loop transcribe (stage_objects w) (opti m) = (Some e, ctx')"
  shows "fst (solve transcribe opti_solve w) = Inl (Raised e)
       \<and> \<not> is_transcribed (snd (solve transcribe opti_solve w))
       \<and> stage_objects (snd (solve transcribe opti_solve w)) = stage_objects w
       \<and> bound_method (snd (solve transcribe opti_solve w)) = Some (m\<lparr>opti := ctx'\<rparr>)
       \<and> (fst (transcribe_loop transcribe2 (stage_objects w) ctx') = None \<longrightarrow>
            snd (solve transcribe2 opti_solve (snd (solve transcribe opti_solve w))) =
              w\<lparr>bound_method :=
                   Some (m\<lparr>opti := transcribe_each_once transcribe2 (stage_objects w) ctx'\<rparr>),
                is_transcribed := True\<rparr>)"
proof -
  let ?w1 = "w\<lparr>bound_method := Some (m\<lparr>opti := ctx'\<rparr>)\<rparr>"
  have first: "solve transcribe opti_solve w = (Inl (Raised e), ?w1)"
    by (rule solve_untranscribed_raises [OF assms])
  have objs: "stage_objects ?w1 = stage_objects w"
    by (simp add: stage_objects_def)
  have retry: "snd (solve transcribe2 opti_solve ?w1) =
      w\<lparr>bound_method :=
           Some (m\<lparr>opti := transcribe_each_once transcribe2 (stage_objects w) ctx'\<rparr>),
        is_transcribed := True\<rparr>"
    if ok: "fst (transcribe_loop transcribe2 (stage_objects w) ctx') = None"
  proof -
    have "fst (transcribe_loop transcribe2 (stage_objects ?w1) (opti (m\<lparr>opti := ctx'\<rparr>))) = None"
      using ok objs by simp
    from solve_untranscribed_ok [of ?w1 "m\<lparr>opti := ctx'\<rparr>" transcribe2 opti_solve, OF _ _ this]
    show ?thesis using assms(2) objs by simp
  qed
  show ?thesis using first objs assms(2) retry by simp
qed

theorem failed_transcription_not_marked_witness:
  "bound_method \<lparr>heap = [''s0'', ''bad''], stages = [0, 1], is_transcribed = False,
      bound_method = Some \<lparr>opti = []\<rparr>\<rparr> = Some \<lparr>opti = []\<rparr>
   \<and> \<not> is_transcribed \<lparr>heap = [''s0'', ''bad''], stages = [0, 1], is_transcribed = False,
      bound_method = Some \<lparr>opti = []\<rparr>\<rparr>
   \<and> transcribe_loop (\<lambda>s c. if s = ''bad'' then (Some (), c) else (None, c @ [s]))
        [''s0'', ''bad''] [] = (Some (), [''s0''])
   \<and> fst (transcribe_loop (\<lambda>s c. (None :: unit option, c @ [s])) [''s0'', ''bad''] [''s0''])
        = None
   \<and> solve (\<lambda>s c. if s = ''bad'' then (Some (), c) else (None, c @ [s]))
        (\<lambda>c. Inr (length c) :: unit + nat)
        \<lparr>heap = [''s0'', ''bad''], stages = [0, 1], is_transcribed = False,
         bound_method = Some \<lparr>opti = []\<rparr>\<rparr> =
      (Inl (Raised ()),
       \<lparr>heap = [''s0'', ''bad''], stages = [0, 1], is_transcribed = False,
        bound_method = Some \<lparr>opti = [''s0'']\<rparr>\<rparr>)
   \<and> snd (solve (\<lambda>s c. (None :: unit option, c @ [s])) (\<lambda>c. Inr (length c) :: unit + nat)
        \<lparr>heap = [''s0'', ''bad''], stages = [0, 1], is_transcribed = False,
         bound_method = Some \<lparr>opti = [''s0'']\<rparr>\<rparr>) =
      \<lparr>heap = [''s0'', ''bad''], stages = [0, 1], is_transcribed = True,
       bound_method = Some \<lparr>opti = [''s0'', ''s0'', ''bad'']\<rparr>\<rparr>"
  using failed_transcription_not_marked
    [where w = "\<lparr>heap = [''s0'', ''bad''], stages = [0, 1], is_transcribed = False,
          bound_method = Some \<lparr>opti = []\<rparr>\<rparr>"
       and m = "\<lparr>opti = []\<rparr>"
       and transcribe = "\<lambda>s c. if s = ''bad'' then (Some (), c) else (None, c @ [s])"
       and e = "()" and ctx' = "[''s0'']"
       and ?transcribe2.0 = "\<lambda>s c. (None :: unit option, c @ [s])"
       and opti_solve = "\<lambda>c. Inr (length c) :: unit + nat"]
  by (simp add: stage_objects_def transcribe_each_once_def solve_def)

lemma stage_result:
  assumes "stage Stage prev_stage kwargs w = Inr (s, w')"
  shows "s = length (heap w) \<and> stages w' = stages w @ [s]
       \<and> is_transcribed w' = is_transcribed w \<and> bound_method w' = bound_method w
       \<and> heap w' = heap w @ [case prev_stage of None \<Rightarrow> Stage kwargs | Some p \<Rightarrow> heap w ! p]"
  using assms
  by (auto simp: stage_def deepcopy_def Let_def split: option.splits if_splits)

lemma solve_transcribed_fixpoint:
  assumes "is_transcribed w"
  shows "((\<lambda>v. snd (solve transcribe opti_solve v)) ^^ n) w = w"
  by (induction n) (simp_all add: solve_transcribed [OF assms])

text \<open>
  Claim C10. On an orchestrator that is transcribed (as the first successful
  \<open>solve()\<close> leaves it), \<open>stage()\<close> registers the new Stage and leaves
  \<open>is_transcribed\<close> and the Method's context as they are. Every later \<open>solve()\<close>,
  however many, leaves the state as it is whatever the transcribe function: the new
  Stage is never transcribed. The result of \<open>solve()\<close> is the result on the
  orchestrator without the new Stage: the Stage adds nothing to the NLP that is solved.
\<close>

theorem late_stage_never_transcribed:
  assumes "is_transcribed w" and "stage Stage prev_stage kwargs w = Inr (s, w')"
  shows "stages w' = stages w @ [s] \<and> is_transcribed w' \<and> bound_method w' = bound_method w
       \<and> ((\<lambda>v. snd (solve transcribe opti_solve v)) ^^ n) w' = w'
       \<and> fst (solve transcribe opti_solve w') = fst (solve transcribe2 opti_solve w)"
proof -
  note r = stage_result [OF assms(2)]
  from r assms(1) have t: "is_transcribed w'" by simp
  show ?thesis
    using r t solve_transcribed_fixpoint [OF t]
    by (simp add: solve_transcribed [OF t] solve_transcribed [OF assms(1)])
qed

theorem late_stage_never_transcribed_witness:
  "is_transcribed \<lparr>heap = [''s0''], stages = [0], is_transcribed = True,
      bound_method = Some \<lparr>opti = [''s0'']\<rparr>\<rparr>
   \<and> (stage (\<lambda>k. k) None ''s1'' \<lparr>heap = [''s0''], stages = [0], is_transcribed = True,
        bound_method = Some \<lparr>opti = [''s0'']\<rparr>\<rparr> :: unit error + _) =
      Inr (1, \<lparr>heap = [''s0'', ''s1''], stages = [0, 1], is_transcribed = True,
        bound_method = Some \<lparr>opti = [''s0'']\<rparr>\<rparr>)
   \<and> ((\<lambda>v. snd (solve (\<lambda>s c. (None :: unit option, c @ [s]))
              (\<lambda>c. Inr (length c) :: unit + nat) v)) ^^ 3)
        \<lparr>heap = [''s0'', ''s1''], stages = [0, 1], is_transcribed = True,
         bound_method = Some \<lparr>opti = [''s0'']\<rparr>\<rparr> =
      \<lparr>heap = [''s0'', ''s1''], stages = [0, 1], is_transcribed = True,
       bound_method = Some \<lparr>opti = [''s0'']\<rparr>\<rparr>
   \<and> fst (solve (\<lambda>s c. (None :: unit option, c @ [s])) (\<lambda>c. Inr (length c) :: unit + nat)
        \<lparr>heap = [''s0'', ''s1''], stages = [0, 1], is_transcribed = True,
         bound_method = Some \<lparr>opti = [''s0'']\<rparr>\<rparr>) = Inr (OcpxSolution 1)"
  using late_stage_never_transcribed
    [where w = "\<lparr>heap = [''s0''], stages = [0], is_transcribed = True,
          bound_method = Some \<lparr>opti = [''s0'']\<rparr>\<rparr>"
       and Stage = "\<lambda>k. k" and prev_stage = None and kwargs = "''s1''" and s = 1
       and w' = "\<lparr>heap = [''s0'', ''s1''], stages = [0, 1], is_transcribed = True,
          bound_method = Some \<lparr>opti = [''s0'']\<rparr>\<rparr>"
       and transcribe = "\<lambda>s c. (None :: unit option, c @ [s])"
       and ?transcribe2.0 = "\<lambda>s c. (None :: unit option, c @ [s])"
       and opti_solve = "\<lambda>c. Inr (length c) :: unit + nat" and n = 3]
  by (simp add: stage_def solve_def Let_def)

text \<open>
  Claim C5. For a Stage object \<open>p\<close> of the store, \<open>stage(prev_stage=p)\<close> returns a new
  Stage: another address, registered last, whose content equals the content of \<open>p\<close>,
  and \<open>p\<close> keeps its content. A later mutation of the copy, by any function \<open>f\<close> on
  its content (adding a constraint is one), changes the copy and leaves \<open>p\<close> with the
  content it had, so every observation of \<open>p\<close>, its constraint count included, is the
  same before and after; and a mutation of \<open>p\<close> leaves the copy as it was.
\<close>

theorem stage_copy_independent:
  assumes "p < length (heap w)"
  shows "\<exists>s2 w'. (stage Stage (Some p) kwargs w :: 'e error + _) = Inr (s2, w')
       \<and> s2 \<noteq> p \<and> stages w' = stages w @ [s2]
       \<and> heap w' ! s2 = heap w ! p \<and> heap w' ! p = heap w ! p
       \<and> heap (stage_update s2 f w') ! p = heap w ! p
       \<and> heap (stage_update s2 f w') ! s2 = f (heap w ! p)
       \<and> heap (stage_update p f w') ! s2 = heap w ! p
       \<and> heap (stage_update p f w') ! p = f (heap w ! p)"
  using assms
  by (simp add: stage_def deepcopy_def stage_update_def nth_append)

theorem stage_copy_independent_witness:
  "(0::nat) < length (heap \<lparr>heap = [[''b >= 0'']], stages = [0], is_transcribed = False,
      bound_method = None :: unit Method option\<rparr>)
   \<and> (stage (\<lambda>k. k) (Some 0) [] \<lparr>heap = [[''b >= 0'']], stages = [0],
        is_transcribed = False, bound_method = None :: unit Method option\<rparr>
        :: unit error + _) =
      Inr (1, \<lparr>heap = [[''b >= 0''], [''b >= 0'']], stages = [0, 1], is_transcribed = False,
        bound_method = None\<rparr>)
   \<and> map length (heap (stage_update 1 (\<lambda>cs. cs @ [''a <= 1''])
        \<lparr>heap = [[''b >= 0''], [''b >= 0'']], stages = [0, 1], is_transcribed = False,
         bound_method = None :: unit Method option\<rparr>)) = [1, 2]"
  using stage_copy_independent
    [where p = 0 and w = "\<lparr>heap = [[''b >= 0'']], stages = [0], is_transcribed = False,
          bound_method = None :: unit Method option\<rparr>"
       and Stage = "\<lambda>k. k" and kwargs = "[]" and f = "\<lambda>cs. cs @ [''a <= 1'']"]
  by (simp add: stage_def deepcopy_def stage_update_def)


subsection \<open>Properties of the basis engine\<close>

lemma length_slice_add:
  "a + length v \<le> length b \<Longrightarrow> length (slice_add a v b) = length b"
  by (simp add: slice_add_def)

lemma sum_list_map2_add:
  fixes xs :: "'a::field list"
  shows "length xs = length ys \<Longrightarrow> sum_list (map2 (+) xs ys) = sum_list xs + sum_list ys"
  by (induction xs ys rule: list_induct2) (simp_all add: algebra_simps)

lemma sum_list_slice_add:
  fixes b :: "'a::field list"
  assumes "a + length v \<le> length b"
  shows "sum_list (slice_add a v b) = sum_list b + sum_list v"
proof -
  have len: "length (take (length v) (drop a b)) = length v" using assms by simp
  have split: "b = take a b @ take (length v) (drop a b) @ drop (a + length v) b"
    by (metis append_take_drop_id drop_drop add.commute)
  have "sum_list b = sum_list (take a b) + sum_list (take (length v) (drop a b))
      + sum_list (drop (a + length v) b)"
    by (subst split) (simp only: sum_list_append add.assoc)
  then show ?thesis
    by (simp add: slice_add_def sum_list_map2_add [OF len] algebra_simps)
qed

lemma nth_slice_add:
  fixes b :: "'a::field list"
  assumes "a + length v \<le> length b" and "j < length b"
  shows "slice_add a v b ! j = b ! j + (if a \<le> j \<and> j < a + length v then v ! (j - a) else 0)"
  using assms by (auto simp: slice_add_def nth_append min_def)

lemma map2_add_scale:
  fixes xs :: "'a::field list"
  shows "map2 (+) (map ((*) c) xs) (map ((*) c) ys) = map ((*) c) (map2 (+) xs ys)"
proof (induction xs arbitrary: ys)
  case Nil
  then show ?case by simp
next
  case (Cons x xs)
  then show ?case by (cases ys) (simp_all add: algebra_simps)
qed

lemma slice_add_map:
  fixes b :: "'a::field list"
  shows "slice_add a (map ((*) c) v) (map ((*) c) b) = map ((*) c) (slice_add a v b)"
proof -
  have "map2 (+) (take (length v) (drop a (map ((*) c) b))) (map ((*) c) v)
      = map ((*) c) (map2 (+) (take (length v) (drop a b)) v)"
    by (simp only: drop_map take_map map2_add_scale)
  then show ?thesis
    by (simp add: slice_add_def drop_map take_map)
qed

lemma map2_map_map:
  "map2 f (map g xs) (map h xs) = map (\<lambda>x. f (g x) (h x)) xs"
  by (induction xs) simp_all

lemma basis_step_eq:
  assumes "2 * d + 2 \<le> length knots" and "1 \<le> e" and "e \<le> d"
  shows "basis_step knots d x e basis =
     slice_add (d - e)
       (map (\<lambda>j. (knots ! (j + e) - x) * (basis ! j / (knots ! (j + e) - knots ! j)))
          [d - e + 1..<length knots - d - 1])
       (slice_add (d - e + 1)
          (map (\<lambda>j. (x - knots ! j) * (basis ! j / (knots ! (j + e) - knots ! j)))
             [d - e + 1..<length knots - d - 1])
          (replicate (length knots - e - 1) 0))"
proof -
  have L: "length [d - e + 1..<length knots - d - 1] = length knots - 2 * d - 2 + e"
    using assms by simp
  show ?thesis
    unfolding basis_step_def Let_def
    by (simp add: map2_map_map L del: upt_Suc)
qed


lemma ratios_add_up:
  fixes a :: "'a::field"
  assumes "b \<noteq> a"
  shows "(x - a) * (v / (b - a)) + (b - x) * (v / (b - a)) = v"
proof -
  have "(x - a) * (v / (b - a)) + (b - x) * (v / (b - a)) = ((x - a) + (b - x)) * (v / (b - a))"
    by (simp only: distrib_right)
  also have "\<dots> = (b - a) * (v / (b - a))" by simp
  also have "\<dots> = v" using assms by simp
  finally show ?thesis .
qed

lemma basis_step_length:
  assumes "2 * d + 2 \<le> length knots" and "1 \<le> e" and "e \<le> d"
  shows "length (basis_step knots d x e basis) = length knots - e - 1"
  using assms by (simp add: basis_step_eq length_slice_add del: upt_Suc)

lemma basis_step_sum:
  fixes knots :: "'a::field list"
  assumes "2 * d + 2 \<le> length knots" and "1 \<le> e" and "e \<le> d"
    and nz: "\<And>j. d - e + 1 \<le> j \<Longrightarrow> j < length knots - d - 1 \<Longrightarrow> knots ! (j + e) \<noteq> knots ! j"
  shows "sum_list (basis_step knots d x e basis) =
         sum_list (map (\<lambda>j. basis ! j) [d - e + 1..<length knots - d - 1])"
proof -
  let ?i = "[d - e + 1..<length knots - d - 1]"
  let ?l = "\<lambda>j. (x - knots ! j) * (basis ! j / (knots ! (j + e) - knots ! j))"
  let ?r = "\<lambda>j. (knots ! (j + e) - x) * (basis ! j / (knots ! (j + e) - knots ! j))"
  let ?z = "replicate (length knots - e - 1) (0::'a)"
  have l1: "d - e + 1 + length (map ?l ?i) \<le> length ?z" using assms(1-3) by simp
  have l2: "d - e + length (map ?r ?i) \<le> length (slice_add (d - e + 1) (map ?l ?i) ?z)"
    using assms(1-3) by (simp add: length_slice_add)
  have "sum_list (basis_step knots d x e basis) = sum_list (map ?l ?i) + sum_list (map ?r ?i)"
    by (simp only: basis_step_eq [OF assms(1-3)] sum_list_slice_add [OF l2]
        sum_list_slice_add [OF l1]) (simp add: sum_list_replicate)
  also have "\<dots> = sum_list (map (\<lambda>j. ?l j + ?r j) ?i)"
    by (simp only: sum_list_addf)
  also have "\<dots> = sum_list (map (\<lambda>j. basis ! j) ?i)"
  proof (rule arg_cong [where f = sum_list], rule map_cong [OF refl])
    fix j assume "j \<in> set ?i"
    then have "knots ! (j + e) \<noteq> knots ! j" using nz [of j] by simp
    then show "?l j + ?r j = basis ! j" by (rule ratios_add_up)
  qed
  finally show ?thesis .
qed

lemma basis_step_nth:
  fixes knots :: "'a::field list"
  assumes "2 * d + 2 \<le> length knots" and "1 \<le> e" and "e \<le> d"
    and "j < length knots - e - 1"
  shows "basis_step knots d x e basis ! j =
     (if d - e + 1 \<le> j \<and> j < length knots - d - 1
      then (x - knots ! j) * (basis ! j / (knots ! (j + e) - knots ! j)) else 0)
   + (if d - e \<le> j \<and> j + 1 < length knots - d - 1
      then (knots ! (j + 1 + e) - x) * (basis ! (j + 1) / (knots ! (j + 1 + e) - knots ! (j + 1)))
      else 0)"
proof -
  let ?i = "[d - e + 1..<length knots - d - 1]"
  let ?l = "\<lambda>j. (x - knots ! j) * (basis ! j / (knots ! (j + e) - knots ! j))"
  let ?r = "\<lambda>j. (knots ! (j + e) - x) * (basis ! j / (knots ! (j + e) - knots ! j))"
  let ?z = "replicate (length knots - e - 1) (0::'a)"
  have l1: "d - e + 1 + length (map ?l ?i) \<le> length ?z" using assms(1-3) by simp
  have l2: "d - e + length (map ?r ?i) \<le> length (slice_add (d - e + 1) (map ?l ?i) ?z)"
    using assms(1-3) by (simp add: length_slice_add)
  have j1: "j < length ?z" using assms(4) by simp
  have j2: "j < length (slice_add (d - e + 1) (map ?l ?i) ?z)"
    using assms(1-4) by (simp add: length_slice_add)
  have a: "d - e + 1 \<le> j \<and> j < d - e + 1 + length (map ?l ?i)
      \<longleftrightarrow> d - e + 1 \<le> j \<and> j < length knots - d - 1"
    using assms(1-3) by auto
  have b: "d - e \<le> j \<and> j < d - e + length (map ?r ?i)
      \<longleftrightarrow> d - e \<le> j \<and> j + 1 < length knots - d - 1"
    using assms(1-3) by auto
  have c: "map ?l ?i ! (j - (d - e + 1)) = ?l j"
    if "d - e + 1 \<le> j" and "j < length knots - d - 1"
  proof -
    have "?i ! (j - (d - e + 1)) = j" using that by (subst nth_upt) simp_all
    moreover have "j - (d - e + 1) < length ?i" using that by simp
    ultimately show ?thesis by (simp only: nth_map)
  qed
  have d': "map ?r ?i ! (j - (d - e)) = ?r (j + 1)"
    if "d - e \<le> j" and "j + 1 < length knots - d - 1"
  proof -
    have "?i ! (j - (d - e)) = j + 1" using that by (subst nth_upt) simp_all
    moreover have "j - (d - e) < length ?i" using that by simp
    ultimately show ?thesis by (simp only: nth_map)
  qed
  show ?thesis
    unfolding basis_step_eq [OF assms(1-3)] nth_slice_add [OF l2 j2] nth_slice_add [OF l1 j1] a b
    using c d' j1 by (auto simp del: upt_Suc nth_map)
qed

lemma sum_list_window:
  fixes b :: "'a::field list"
  assumes "c \<le> length b" and z: "\<And>j. j < length b \<Longrightarrow> j < a \<or> c \<le> j \<Longrightarrow> b ! j = 0"
  shows "sum_list (map (\<lambda>j. b ! j) [a..<c]) = sum_list b"
proof -
  have "sum_list b = (\<Sum>j = 0..<length b. b ! j)" by (rule sum_list_sum_nth)
  also have "\<dots> = (\<Sum>j \<in> {a..<c}. b ! j)"
  proof (rule sum.mono_neutral_right)
    show "finite {0..<length b}" by simp
    show "{a..<c} \<subseteq> {0..<length b}" using assms(1) by auto
    show "\<forall>j \<in> {0..<length b} - {a..<c}. b ! j = 0" using z by auto
  qed
  also have "\<dots> = sum_list (map (\<lambda>j. b ! j) [a..<c])"
    by (simp add: interv_sum_list_conv_sum_set_nat)
  finally show ?thesis by simp
qed

lemma basis_step_zero_outside:
  fixes knots :: "'a::field list"
  assumes "2 * d + 2 \<le> length knots" and "1 \<le> e" and "e \<le> d"
    and "j < length knots - e - 1" and "j < d - e \<or> length knots - d - 1 \<le> j"
  shows "basis_step knots d x e basis ! j = 0"
  using assms(5) by (auto simp: basis_step_nth [OF assms(1-4)])

lemma basis_step_cong:
  assumes "\<And>j. d - e + 1 \<le> j \<Longrightarrow> j < length knots - d - 1 \<Longrightarrow> basis ! j = basis' ! j"
  shows "basis_step knots d x e basis = basis_step knots d x e basis'"
proof -
  have "map (\<lambda>j. basis ! j) [d - e + 1..<length knots - d - 1]
      = map (\<lambda>j. basis' ! j) [d - e + 1..<length knots - d - 1]"
    using assms by (intro map_cong) auto
  then show ?thesis unfolding basis_step_def Let_def by (simp only:)
qed

lemma basis_step_scale:
  fixes knots :: "'a::field list"
  assumes "2 * d + 2 \<le> length knots" and "1 \<le> e" and "e \<le> d"
    and "length knots - d - 1 \<le> length basis"
  shows "basis_step knots d x e (map ((*) c) basis) = map ((*) c) (basis_step knots d x e basis)"
proof -
  let ?i = "[d - e + 1..<length knots - d - 1]"
  let ?l = "\<lambda>b j. (x - knots ! j) * (b ! j / (knots ! (j + e) - knots ! j))"
  let ?r = "\<lambda>b j. (knots ! (j + e) - x) * (b ! j / (knots ! (j + e) - knots ! j))"
  have l: "map (?l (map ((*) c) basis)) ?i = map ((*) c) (map (?l basis) ?i)"
    unfolding map_map using assms(4) by (intro map_cong) (auto simp: o_def)
  have r: "map (?r (map ((*) c) basis)) ?i = map ((*) c) (map (?r basis) ?i)"
    unfolding map_map using assms(4) by (intro map_cong) (auto simp: o_def)
  have z: "replicate (length knots - e - 1) (0::'a) = map ((*) c) (replicate (length knots - e - 1) 0)"
    by simp
  show ?thesis
    unfolding basis_step_eq [OF assms(1-3)] l r
    by (subst z) (simp only: slice_add_map)
qed

lemma upt_1_Suc_Suc: "[1..<Suc (Suc m)] = [1..<Suc m] @ [Suc m]"
  by simp

lemma basis_recursion_invariant:
  fixes knots :: "'a::field list"
  assumes G: "2 * d + 2 \<le> length knots"
    and nz: "\<And>e j. 1 \<le> e \<Longrightarrow> e \<le> d \<Longrightarrow> d - e + 1 \<le> j \<Longrightarrow> j < length knots - d - 1
               \<Longrightarrow> knots ! (j + e) \<noteq> knots ! j"
    and m: "1 \<le> m" "m \<le> d"
  shows "sum_list (fold (basis_step knots d x) [1..<Suc m] b0)
           = sum_list (map (\<lambda>j. b0 ! j) [d..<length knots - d - 1])
       \<and> length (fold (basis_step knots d x) [1..<Suc m] b0) = length knots - m - 1
       \<and> (\<forall>j < length knots - m - 1. j < d - m \<or> length knots - d - 1 \<le> j \<longrightarrow>
            fold (basis_step knots d x) [1..<Suc m] b0 ! j = 0)"
  using m
proof (induction m rule: dec_induct)
  case base
  have d1: "1 \<le> d" using m by simp
  have e: "[1..<Suc 1] = [1]" by simp
  have dd: "d - 1 + 1 = d" using d1 by simp
  show ?case
    unfolding e
    using basis_step_sum [OF G order_refl d1, where x = x and basis = b0] nz [of 1] d1
      basis_step_length [OF G order_refl d1, where x = x and basis = b0]
      basis_step_zero_outside [OF G order_refl d1, where x = x and basis = b0]
    by (simp add: dd)
next
  case (step m)
  let ?b = "fold (basis_step knots d x) [1..<Suc m] b0"
  have md: "Suc m \<le> d" and m1: "1 \<le> Suc m" using step by simp_all
  have f: "fold (basis_step knots d x) [1..<Suc (Suc m)] b0 = basis_step knots d x (Suc m) ?b"
    by (simp only: upt_1_Suc_Suc fold_append fold_simps o_apply)
  have dd: "Suc (d - Suc m) = d - m" using md by simp
  have mm: "m \<le> d" using md by simp
  note ih = step.IH [OF mm]
  from ih have ih_sum: "sum_list ?b = sum_list (map (\<lambda>j. b0 ! j) [d..<length knots - d - 1])"
    by blast
  from ih have ih_len: "length ?b = length knots - m - 1"
    by blast
  from ih have ih_zero: "?b ! j = 0"
    if "j < length knots - m - 1" and "j < d - m \<or> length knots - d - 1 \<le> j" for j
    using that by blast
  have "sum_list (basis_step knots d x (Suc m) ?b) = sum_list (map (\<lambda>j. ?b ! j) [d - m..<length knots - d - 1])"
    using basis_step_sum [OF G m1 md, where x = x and basis = ?b] nz [of "Suc m"] md
    by (simp add: dd del: upt_Suc)
  also have "\<dots> = sum_list ?b"
  proof (rule sum_list_window)
    show "length knots - d - 1 \<le> length ?b" using ih_len md by (simp del: upt_Suc)
    show "\<And>j. j < length ?b \<Longrightarrow> j < d - m \<or> length knots - d - 1 \<le> j \<Longrightarrow> ?b ! j = 0"
      using ih_zero ih_len by (simp del: upt_Suc)
  qed
  finally have s: "sum_list (basis_step knots d x (Suc m) ?b)
      = sum_list (map (\<lambda>j. b0 ! j) [d..<length knots - d - 1])"
    using ih_sum by (simp del: upt_Suc)
  show ?case
    unfolding f
    using s basis_step_length [OF G m1 md, where x = x and basis = ?b]
      basis_step_zero_outside [OF G m1 md, where x = x and basis = ?b]
    by (simp del: upt_Suc)
qed

lemma basis_recursion_scale:
  fixes knots :: "'a::field list"
  assumes G: "2 * d + 2 \<le> length knots" and len: "length knots - 1 \<le> length b0"
  shows "basis_recursion knots d x (map ((*) c) b0) = map ((*) c) (basis_recursion knots d x b0)"
proof -
  have "m \<le> d \<Longrightarrow>
      fold (basis_step knots d x) [1..<Suc m] (map ((*) c) b0)
        = map ((*) c) (fold (basis_step knots d x) [1..<Suc m] b0)
      \<and> length knots - m - 1 \<le> length (fold (basis_step knots d x) [1..<Suc m] b0)" for m
  proof (induction m)
    case 0
    then show ?case using len by simp
  next
    case (Suc m)
    let ?b = "fold (basis_step knots d x) [1..<Suc m] b0"
    have md: "Suc m \<le> d" and m1: "1 \<le> Suc m" and mm: "m \<le> d" using Suc.prems by simp_all
    note ih = Suc.IH [OF mm]
    have l: "length knots - d - 1 \<le> length ?b" using ih mm by linarith
    have f: "fold (basis_step knots d x) [1..<Suc (Suc m)] b = basis_step knots d x (Suc m)
        (fold (basis_step knots d x) [1..<Suc m] b)" for b
      by (simp only: upt_1_Suc_Suc fold_append fold_simps o_apply)
    show ?case
      unfolding f
      using ih basis_step_scale [OF G m1 md l, of x c]
        basis_step_length [OF G m1 md, where x = x and basis = ?b]
      by (simp del: upt_Suc)
  qed
  from this [of d] show ?thesis by (simp add: basis_recursion_def del: upt_Suc)
qed

lemma fold_update_nth:
  "m \<le> length zs \<Longrightarrow> j < length zs \<Longrightarrow>
   fold (\<lambda>j basis. basis[j := v]) [0..<m] zs ! j = (if j < m then v else zs ! j)"
  and fold_update_length: "length (fold (\<lambda>j basis. basis[j := v]) [0..<m] zs) = length zs"
  by (induction m) (auto simp: nth_list_update less_Suc_eq)

lemma basis0_length: "length (basis0 ind n d :: 'a::field list) = n"
  by (simp add: basis0_def fold_update_length del: upt_Suc)

lemma basis0_nth:
  assumes "d + 2 \<le> n" and "j < n"
  shows "(basis0 ind n d :: 'a::field list) ! j =
     (if (if ind = 0 then j \<le> d else j = min (ind + d) (n - d - 2)) then 1 + eps else 0)"
proof (cases "ind = 0")
  case True
  then show ?thesis
    using assms fold_update_nth [of "d + 1" "replicate n (0::'a)" j "1 + eps"]
    by (simp add: basis0_def del: upt_Suc) 
next
  case False
  have "min (ind + d) (n - d - 2) < n" using assms by simp
  then show ?thesis
    using False assms by (simp add: basis0_def nth_list_update del: upt_Suc)
qed

lemma basis0_scaled:
  assumes "d + 2 \<le> n"
  shows "(basis0 ind n d :: 'a::field list) = map ((*) (1 + eps)) (degree0_basis ind n d)"
proof (rule nth_equalityI)
  show "length (basis0 ind n d :: 'a list) = length (map ((*) (1 + eps)) (degree0_basis ind n d :: 'a list))"
    by (simp add: basis0_length degree0_basis_def)
  fix j assume "j < length (basis0 ind n d :: 'a list)"
  then have j: "j < n" by (simp add: basis0_length)
  show "(basis0 ind n d :: 'a list) ! j = map ((*) (1 + eps)) (degree0_basis ind n d) ! j"
    using j by (simp add: basis0_nth [OF assms j] degree0_basis_def del: upt_Suc)
qed

lemma basis0_window_sum:
  assumes "2 * d + 2 \<le> n" and "ind + d < n"
  shows "sum_list (map (\<lambda>j. (basis0 ind n d :: 'a::field list) ! j) [d..<n - d - 1]) = 1 + eps"
proof -
  let ?s = "if ind = 0 then d else min (ind + d) (n - d - 2)"
  have s: "?s \<in> {d..<n - d - 1}" using assms by auto
  have "sum_list (map (\<lambda>j. (basis0 ind n d :: 'a list) ! j) [d..<n - d - 1])
      = (\<Sum>j \<in> {d..<n - d - 1}. (basis0 ind n d :: 'a list) ! j)"
    by (simp add: interv_sum_list_conv_sum_set_nat)
  also have "\<dots> = (\<Sum>j \<in> {d..<n - d - 1}. if j = ?s then 1 + eps else 0)"
  proof (rule sum.cong [OF refl])
    fix j assume "j \<in> {d..<n - d - 1}"
    then have j: "j < n" "d \<le> j" by auto
    have dn: "d + 2 \<le> n" using assms by simp
    show "(basis0 ind n d :: 'a list) ! j = (if j = ?s then 1 + eps else 0)"
      using j by (auto simp: basis0_nth [OF dn j(1)])
  qed
  also have "\<dots> = 1 + eps"
    using s sum.delta [of "{d..<n - d - 1}" ?s "\<lambda>j. 1 + eps :: 'a"]
    by (simp del: One_nat_def)
  finally show ?thesis .
qed

lemma clamped_nth:
  assumes "xi \<noteq> []" and "j < length xi + 2 * d"
  shows "(replicate d (xi ! 0) @ xi @ replicate d (last xi)) ! j = xi ! (min (j - d) (length xi - 1))"
proof -
  consider "j < d" | "d \<le> j" "j < d + length xi" | "d + length xi \<le> j" by linarith
  then show ?thesis
  proof cases
    case 1
    then show ?thesis by (simp add: nth_append)
  next
    case 2
    then have "min (j - d) (length xi - 1) = j - d" and "j - d < length xi" by auto
    with 2 show ?thesis by (simp add: nth_append)
  next
    case 3
    then have "min (j - d) (length xi - 1) = length xi - 1" by simp
    with 3 assms show ?thesis by (simp add: nth_append last_conv_nth)
  qed
qed

lemma clamped_nondegenerate:
  fixes xi :: "'a::linorder list"
  assumes inc: "sorted_wrt (<) xi" and n: "2 \<le> length xi"
  shows "nondegenerate (replicate d (xi ! 0) @ xi @ replicate d (last xi)) d"
  unfolding nondegenerate_def
proof (intro ballI)
  let ?k = "replicate d (xi ! 0) @ xi @ replicate d (last xi)"
  fix e j assume e: "e \<in> {1..d}" and j: "j \<in> {d - e + 1..<length ?k - d - 1}"
  have ne: "xi \<noteq> []" using n by auto
  have jb: "j < length xi + d - 1" "d + 1 \<le> j + e" "1 \<le> e" "e \<le> d" using e j by auto
  have a: "?k ! j = xi ! (j - d)"
    using clamped_nth [OF ne, of j d] jb by (simp add: min_def)
  have b: "?k ! (j + e) = xi ! (min (j + e - d) (length xi - 1))"
    using clamped_nth [OF ne, of "j + e" d] jb by simp
  have "j - d < min (j + e - d) (length xi - 1)" using jb n by auto
  moreover have "min (j + e - d) (length xi - 1) < length xi" using n by simp
  ultimately have "xi ! (j - d) < xi ! (min (j + e - d) (length xi - 1))"
    using sorted_wrt_nth_less [OF inc] by blast
  then show "?k ! (j + e) \<noteq> ?k ! j" unfolding a b by simp
qed

lemma map2_replicate_left: "length ys = n \<Longrightarrow> map2 f (replicate n a) ys = map (f a) ys"
  by (rule nth_equalityI) simp_all

lemma map2_replicate_right: "length xs = n \<Longrightarrow> map2 f xs (replicate n a) = map (\<lambda>x. f x a) xs"
  by (rule nth_equalityI) simp_all

lemma basis_step_subsampled_cols:
  fixes knots :: "'a::field list"
  assumes "2 * d + 2 \<le> length knots" and "1 \<le> e" and "e \<le> d"
    and len: "length x = length basis"
  shows "basis_step_subsampled knots d x e basis
       = map2 (\<lambda>xv col. basis_step knots d xv e col) x basis"
proof -
  let ?i = "[d - e + 1..<length knots - d - 1]"
  let ?L = "length knots - 2 * d - 2 + e"
  let ?ki = "map (\<lambda>j. knots ! j) ?i"
  let ?kid = "map (\<lambda>j. knots ! (j + e)) ?i"
  have L: "length ?i = ?L" using assms(1-3) by simp
  have ki: "map2 (-) (replicate ?L xv) ?ki = map (\<lambda>k. xv - k) ?ki" for xv
    by (rule map2_replicate_left) (simp only: length_map L)
  have kid: "map2 (-) ?kid (replicate ?L xv) = map (\<lambda>k. k - xv) ?kid" for xv
    by (rule map2_replicate_right) (simp only: length_map L)
  show ?thesis
  proof (rule nth_equalityI)
    show "length (basis_step_subsampled knots d x e basis)
        = length (map2 (\<lambda>xv col. basis_step knots d xv e col) x basis)"
      using len by (simp add: basis_step_subsampled_def Let_def del: upt_Suc)
  next
    fix c assume "c < length (basis_step_subsampled knots d x e basis)"
    then have c: "c < length x" "c < length basis"
      using len by (simp_all add: basis_step_subsampled_def Let_def del: upt_Suc)
    show "basis_step_subsampled knots d x e basis ! c
        = map2 (\<lambda>xv col. basis_step knots d xv e col) x basis ! c"
      using c assms(1-3)
      by (simp add: basis_step_subsampled_def basis_step_def Let_def
          map2_replicate_left map2_replicate_right del: upt_Suc)
  qed
qed

lemma map2_snd: "length xs = length ys \<Longrightarrow> map2 (\<lambda>a b. b) xs ys = ys"
  by (rule nth_equalityI) simp_all

lemma fold_subsampled_cols:
  fixes knots :: "'a::field list"
  assumes G: "2 * d + 2 \<le> length knots"
  shows "set es \<subseteq> {1..d} \<Longrightarrow> length x = length basis \<Longrightarrow>
     fold (basis_step_subsampled knots d x) es basis
       = map2 (\<lambda>xv col. fold (basis_step knots d xv) es col) x basis"
proof (induction es arbitrary: basis)
  case Nil
  then show ?case by (simp add: map2_snd)
next
  case (Cons e es)
  have e: "1 \<le> e" "e \<le> d" and es: "set es \<subseteq> {1..d}" using Cons.prems(1) by auto
  let ?b = "map2 (\<lambda>xv col. basis_step knots d xv e col) x basis"
  have s: "basis_step_subsampled knots d x e basis = ?b"
    by (rule basis_step_subsampled_cols [OF G e Cons.prems(2)])
  have l: "length x = length ?b" using Cons.prems(2) by simp
  have "fold (basis_step_subsampled knots d x) (e # es) basis
      = map2 (\<lambda>xv col. fold (basis_step knots d xv) es col) x ?b"
    using Cons.IH [OF es l] s by simp
  also have "\<dots> = map2 (\<lambda>xv col. fold (basis_step knots d xv) (e # es) col) x basis"
    using Cons.prems(2) by (intro nth_equalityI) simp_all
  finally show ?case .
qed

lemma interior_tau_eq:
  "(interior_tau N :: 'a::field list) = map (\<lambda>j. of_nat j / of_nat (N + 1)) [1..<N + 1]"
proof -
  let ?f = "\<lambda>j. (0::'a) + of_nat j * ((1 - 0) / of_nat (N + 2 - 1))"
  have t: "tl [0..<N + 2] = [1..<N + 2]" by (simp only: tl_upt One_nat_def)
  have b: "butlast [1..<N + 2] = [1..<N + 1]" by simp
  have "(interior_tau N :: 'a list) = map ?f (butlast (tl [0..<N + 2]))"
    by (simp only: interior_tau_def linspace_def map_tl map_butlast)
  also have "\<dots> = map ?f [1..<N + 1]" by (simp only: t b)
  also have "\<dots> = map (\<lambda>j. of_nat j / of_nat (N + 1)) [1..<N + 1]"
    by (rule map_cong) simp_all
  finally show ?thesis .
qed

lemma interior_tau_length: "length (interior_tau N :: 'a::field list) = N"
  by (simp add: interior_tau_eq del: upt_Suc)

lemma basis_recursion_seed:
  fixes knots :: "'a::field list"
  assumes G: "2 * d + 2 \<le> length knots"
  shows "basis_recursion knots d x (basis0 ind (length knots) d)
       = basis_recursion knots d x
           ((replicate (length knots) 0)[min (ind + d) (length knots - d - 2) := 1 + eps])"
proof (cases "ind = 0")
  case False
  then show ?thesis by (simp add: basis0_def)
next
  case True
  show ?thesis
  proof (cases d)
    case 0
    with True show ?thesis by (simp add: basis0_def)
  next
    case (Suc d')
    let ?n = "length knots"
    let ?s = "(replicate ?n (0::'a))[min (ind + d) (?n - d - 2) := 1 + eps]"
    have u: "[1..<d + 1] = 1 # [Suc 1..<d + 1]" using Suc by (simp add: upt_conv_Cons)
    have dn: "d + 2 \<le> ?n" using G by simp
    have "basis_step knots d x 1 (basis0 ind ?n d) = basis_step knots d x 1 ?s"
    proof (rule basis_step_cong)
      fix j assume j: "d - 1 + 1 \<le> j" "j < ?n - d - 1"
      then have jn: "j < ?n" and dj: "d \<le> j" using Suc by simp_all
      show "basis0 ind ?n d ! j = ?s ! j"
        using True dj jn G by (auto simp: basis0_nth [OF dn jn] nth_list_update)
    qed
    then show ?thesis unfolding basis_recursion_def u by (simp only: fold_simps o_apply)
  qed
qed

lemma basis_step_cox:
  fixes knots :: "'a::field list"
  assumes G: "2 * d + 2 \<le> length knots" and e: "e < d"
    and b: "\<And>j. j < length knots - d - 1 \<Longrightarrow> basis ! j = cox_de_boor knots d x seed e j"
  shows "basis_step knots d x (Suc e) basis
       = map (cox_de_boor knots d x seed (Suc e)) [0..<length knots - Suc e - 1]"
proof (rule nth_equalityI)
  have e1: "1 \<le> Suc e" and ed: "Suc e \<le> d" using e by simp_all
  show "length (basis_step knots d x (Suc e) basis)
      = length (map (cox_de_boor knots d x seed (Suc e)) [0..<length knots - Suc e - 1])"
    by (simp add: basis_step_length [OF G e1 ed])
  fix j assume "j < length (basis_step knots d x (Suc e) basis)"
  then have j: "j < length knots - Suc e - 1" by (simp add: basis_step_length [OF G e1 ed])
  have l: "basis ! j = cox_de_boor knots d x seed e j" if "j < length knots - d - 1"
    using that by (rule b)
  have r: "basis ! (j + 1) = cox_de_boor knots d x seed e (j + 1)" if "j + 1 < length knots - d - 1"
    using that by (rule b)
  have c: "d - Suc e \<le> j \<longleftrightarrow> d - Suc e + 1 \<le> j + 1" by simp
  show "basis_step knots d x (Suc e) basis ! j
      = map (cox_de_boor knots d x seed (Suc e)) [0..<length knots - Suc e - 1] ! j"
    unfolding basis_step_nth [OF G e1 ed j] c
    using j l r by (simp del: upt_Suc)
qed

lemma basis_recursion_cox:
  fixes knots :: "'a::field list"
  assumes G: "2 * d + 2 \<le> length knots" and len: "length seed = length knots"
  shows "basis_recursion knots d x seed
       = map (cox_de_boor knots d x seed d) [0..<(if d = 0 then length knots else length knots - d - 1)]"
proof (cases "d = 0")
  case True
  have "cox_de_boor knots d x seed 0 = (!) seed" by (rule ext) simp
  with True show ?thesis using len map_nth [of seed] by (simp add: basis_recursion_def)
next
  case False
  have "m < d \<Longrightarrow> fold (basis_step knots d x) [1..<Suc (Suc m)] seed
      = map (cox_de_boor knots d x seed (Suc m)) [0..<length knots - Suc m - 1]" for m
  proof (induction m)
    case 0
    have u: "[1..<Suc (Suc 0)] = [Suc 0]" by simp
    have "basis_step knots d x (Suc 0) seed
        = map (cox_de_boor knots d x seed (Suc 0)) [0..<length knots - Suc 0 - 1]"
      by (rule basis_step_cox [OF G "0.prems"]) simp
    then show ?case unfolding u by simp
  next
    case (Suc m)
    let ?b = "fold (basis_step knots d x) [1..<Suc (Suc m)] seed"
    have md: "m < d" using Suc.prems by simp
    have ih: "?b = map (cox_de_boor knots d x seed (Suc m)) [0..<length knots - Suc m - 1]"
      by (rule Suc.IH [OF md])
    have f: "fold (basis_step knots d x) [1..<Suc (Suc (Suc m))] seed
        = basis_step knots d x (Suc (Suc m)) ?b"
      by (simp only: upt_1_Suc_Suc fold_append fold_simps o_apply)
    have n: "?b ! j = cox_de_boor knots d x seed (Suc m) j" if "j < length knots - d - 1" for j
    proof -
      have "j < length knots - Suc m - 1" using that Suc.prems by simp
      then show ?thesis unfolding ih by (simp del: upt_Suc)
    qed
    show ?case unfolding f by (rule basis_step_cox [OF G Suc.prems n])
  qed
  from this [of "d - 1"] False show ?thesis
    by (simp add: basis_recursion_def del: upt_Suc)
qed

lemma nondegenerateD:
  "nondegenerate knots d \<Longrightarrow> 1 \<le> e \<Longrightarrow> e \<le> d \<Longrightarrow> d - e + 1 \<le> j \<Longrightarrow> j < length knots - d - 1
    \<Longrightarrow> knots ! (j + e) \<noteq> knots ! j"
  by (simp add: nondegenerate_def)

lemma basis_recursion_sum:
  fixes knots :: "'a::field list"
  assumes G: "2 * d + 2 \<le> length knots" and d: "1 \<le> d" and nd: "nondegenerate knots d"
    and ind: "ind + d < length knots"
  shows "sum_list (basis_recursion knots d x (basis0 ind (length knots) d)) = 1 + eps"
    and "length (basis_recursion knots d x (basis0 ind (length knots) d)) = length knots - d - 1"
  using basis_recursion_invariant [OF G nondegenerateD [OF nd] d order_refl,
      of x "basis0 ind (length knots) d"]
    basis0_window_sum [OF G ind, where ?'a = 'a]
  by (simp_all add: basis_recursion_def del: upt_Suc)

lemma eval_basis_knotindex_column:
  fixes knots :: "'a::field list"
  assumes G: "2 * d + 2 \<le> length knots" and d: "1 \<le> d" and nd: "nondegenerate knots d"
    and ind: "ind + d < length knots"
  shows "\<exists>b. eval_basis_knotindex ind knots d = Inr b
       \<and> length b = length knots - d - 1 \<and> sum_list b = 1 + eps"
  using basis_recursion_sum [OF assms] G ind by (simp add: eval_basis_knotindex_def)

lemma eval_basis_knotindex_subsampled_eq:
  fixes knots :: "'a::field list"
  assumes G: "2 * d + 2 \<le> length knots" and ind: "ind + d + 1 < length knots" and N: "0 < N"
  shows "eval_basis_knotindex_subsampled ind N knots d =
     Inr (map (\<lambda>t. basis_recursion knots d
                  (knots ! (ind + d) * (1 - t) + t * knots ! (ind + d + 1))
                  (basis0 ind (length knots) d))
            (interior_tau N))"
proof -
  let ?x = "map (\<lambda>t. knots ! (ind + d) * (1 - t) + t * knots ! (ind + d + 1)) (interior_tau N :: 'a list)"
  let ?s = "(replicate (length knots) (0::'a))[min (ind + d) (length knots - d - 2) := 1 + eps]"
  have l: "length ?x = length (basis0_subsampled ind N (length knots) d :: 'a list list)"
    by (simp add: basis0_subsampled_def interior_tau_length)
  have es: "set [1..<d + 1] \<subseteq> {1..d}" by auto
  have "fold (basis_step_subsampled knots d ?x) [1..<d + 1] (basis0_subsampled ind N (length knots) d)
      = map2 (\<lambda>xv col. fold (basis_step knots d xv) [1..<d + 1] col) ?x (replicate N ?s)"
    using fold_subsampled_cols [OF G es l] by (simp only: basis0_subsampled_def)
  also have "\<dots> = map (\<lambda>xv. basis_recursion knots d xv ?s) ?x"
    unfolding basis_recursion_def
    by (rule map2_replicate_right) (simp add: interior_tau_length)
  also have "\<dots> = map (\<lambda>xv. basis_recursion knots d xv (basis0 ind (length knots) d)) ?x"
    by (simp only: basis_recursion_seed [OF G])
  finally show ?thesis
    using G ind N by (simp add: eval_basis_knotindex_subsampled_def Let_def o_def del: upt_Suc)
qed

lemma eval_basis_knotindex_subsampled_columns:
  fixes knots :: "'a::field list"
  assumes G: "2 * d + 2 \<le> length knots" and d: "1 \<le> d" and nd: "nondegenerate knots d"
    and ind: "ind + d + 1 < length knots" and N: "0 < N"
  shows "\<exists>bs. eval_basis_knotindex_subsampled ind N knots d = Inr bs \<and> length bs = N
       \<and> (\<forall>col \<in> set bs. length col = length knots - d - 1 \<and> sum_list col = 1 + eps)"
proof -
  have i: "ind + d < length knots" using ind by simp
  show ?thesis
    unfolding eval_basis_knotindex_subsampled_eq [OF G ind N]
    using basis_recursion_sum [OF G d nd i]
    by (simp add: interior_tau_length)
qed

text \<open>
  Claim C3. For a knot vector of at least \<open>2*d+2\<close> entries whose knot spans in the
  windows of the recursion are not zero, and an index with \<open>ind + d\<close> in range, the
  starting vector of \<open>eval_basis_knotindex\<close> has one entry per knot and is zero
  except that, for \<open>ind > 0\<close>, the slot \<open>min(ind+d, numel-d-2)\<close> holds \<open>1 + eps\<close>,
  and for \<open>ind = 0\<close> the first \<open>d+1\<close> slots each hold \<open>1 + eps\<close>. The result is
  the degree-\<open>d\<close> vector of the Cox-de Boor recursion from that starting vector at
  the point \<open>knots[ind+d]\<close>: \<open>d\<close> steps, each with the left and right ratios of the
  spec over the window of the step (for \<open>d = 0\<close> no step, and the starting vector
  itself). And every value of the result is \<open>1 + eps\<close> times the value the Cox-de Boor
  recursion gives from the unperturbed degree-0 basis, so the perturbation changes each
  value by the relative amount \<open>eps\<close>.
\<close>

theorem seed_and_perturbation:
  fixes knots :: "'a::field list"
  assumes "2 * d + 2 \<le> length knots" and "ind + d < length knots"
    and "nondegenerate knots d"
  shows "length (basis0 ind (length knots) d :: 'a list) = length knots
       \<and> (\<forall>j < length knots. (basis0 ind (length knots) d :: 'a list) ! j =
            (if (if ind = 0 then j \<le> d else j = min (ind + d) (length knots - d - 2))
             then 1 + eps else 0))
       \<and> eval_basis_knotindex ind knots d =
           Inr (map (cox_de_boor knots d (knots ! (ind + d)) (basis0 ind (length knots) d) d)
                  [0..<(if d = 0 then length knots else length knots - d - 1)])
       \<and> eval_basis_knotindex ind knots d =
           Inr (map (\<lambda>j. (1 + eps) * cox_de_boor knots d (knots ! (ind + d))
                                       (degree0_basis ind (length knots) d) d j)
                  [0..<(if d = 0 then length knots else length knots - d - 1)])"
proof (intro conjI)
  have dn: "d + 2 \<le> length knots" using assms(1) by simp
  let ?x = "knots ! (ind + d)"
  let ?r = "[0..<(if d = 0 then length knots else length knots - d - 1)]"
  show "length (basis0 ind (length knots) d :: 'a list) = length knots"
    by (rule basis0_length)
  show "\<forall>j < length knots. (basis0 ind (length knots) d :: 'a list) ! j =
      (if (if ind = 0 then j \<le> d else j = min (ind + d) (length knots - d - 2))
       then 1 + eps else 0)"
    using basis0_nth [OF dn, where ?'a = 'a] by blast
  have e: "eval_basis_knotindex ind knots d
      = Inr (basis_recursion knots d ?x (basis0 ind (length knots) d))"
    using assms(1,2) by (simp add: eval_basis_knotindex_def)
  show "eval_basis_knotindex ind knots d =
      Inr (map (cox_de_boor knots d ?x (basis0 ind (length knots) d) d) ?r)"
    unfolding e by (simp only: basis_recursion_cox [OF assms(1) basis0_length])
  have l: "length (degree0_basis ind (length knots) d :: 'a list) = length knots"
    by (simp add: degree0_basis_def)
  have l': "length knots - 1 \<le> length (degree0_basis ind (length knots) d :: 'a list)"
    using l by simp
  have "basis_recursion knots d ?x (basis0 ind (length knots) d)
      = map ((*) (1 + eps)) (basis_recursion knots d ?x (degree0_basis ind (length knots) d))"
    by (simp only: basis0_scaled [OF dn] basis_recursion_scale [OF assms(1) l'])
  also have "\<dots> = map ((*) (1 + eps))
      (map (cox_de_boor knots d ?x (degree0_basis ind (length knots) d) d) ?r)"
    by (simp only: basis_recursion_cox [OF assms(1) l])
  also have "\<dots> = map (\<lambda>j. (1 + eps) * cox_de_boor knots d ?x
      (degree0_basis ind (length knots) d) d j) ?r"
    by (simp only: map_map o_def)
  finally show "eval_basis_knotindex ind knots d =
      Inr (map (\<lambda>j. (1 + eps) * cox_de_boor knots d ?x
        (degree0_basis ind (length knots) d) d j) ?r)"
    unfolding e by (simp only:)
qed

theorem seed_and_perturbation_witness:
  "2 * 2 + 2 \<le> length [0, 0, 0, 1, 2, 3, 3, 3 :: real]
   \<and> 1 + 2 < length [0, 0, 0, 1, 2, 3, 3, 3 :: real]
   \<and> nondegenerate [0, 0, 0, 1, 2, 3, 3, 3 :: real] 2
   \<and> basis0 1 (length [0, 0, 0, 1, 2, 3, 3, 3 :: real]) 2 = [0, 0, 0, 1 + eps, 0, 0, 0, 0 :: real]
   \<and> eval_basis_knotindex 1 [0, 0, 0, 1, 2, 3, 3, 3 :: real] 2
       = Inr (map ((*) (1 + eps)) [0, 1 / 2, 1 / 2, 0, 0])"
proof -
  have h1: "2 * 2 + 2 \<le> length [0, 0, 0, 1, 2, 3, 3, 3 :: real]" by simp
  have h2: "1 + 2 < length [0, 0, 0, 1, 2, 3, 3, 3 :: real]" by simp
  have h3: "nondegenerate [0, 0, 0, 1, 2, 3, 3, 3 :: real] 2" by code_simp
  have s: "basis0 1 (length [0, 0, 0, 1, 2, 3, 3, 3 :: real]) 2 = [0, 0, 0, 1 + eps, 0, 0, 0, 0 :: real]"
    by code_simp
  have r: "map (\<lambda>j. (1 + eps) * cox_de_boor [0, 0, 0, 1, 2, 3, 3, 3 :: real] 2
        ([0, 0, 0, 1, 2, 3, 3, 3] ! (1 + 2))
        (degree0_basis 1 (length [0, 0, 0, 1, 2, 3, 3, 3 :: real]) 2) 2 j)
        [0..<(if (2::nat) = 0 then length [0, 0, 0, 1, 2, 3, 3, 3 :: real]
              else length [0, 0, 0, 1, 2, 3, 3, 3 :: real] - 2 - 1)]
      = map ((*) (1 + eps)) [0, 1 / 2, 1 / 2, 0, 0]"
    by code_simp
  from seed_and_perturbation [OF h1 h2 h3]
  have "eval_basis_knotindex 1 [0, 0, 0, 1, 2, 3, 3, 3 :: real] 2 =
      Inr (map (\<lambda>j. (1 + eps) * cox_de_boor [0, 0, 0, 1, 2, 3, 3, 3 :: real] 2
        ([0, 0, 0, 1, 2, 3, 3, 3] ! (1 + 2))
        (degree0_basis 1 (length [0, 0, 0, 1, 2, 3, 3, 3 :: real]) 2) 2 j)
        [0..<(if (2::nat) = 0 then length [0, 0, 0, 1, 2, 3, 3, 3 :: real]
              else length [0, 0, 0, 1, 2, 3, 3, 3 :: real] - 2 - 1)])"
    by blast
  then have "eval_basis_knotindex 1 [0, 0, 0, 1, 2, 3, 3, 3 :: real] 2
      = Inr (map ((*) (1 + eps)) [0, 1 / 2, 1 / 2, 0, 0])"
    by (simp only: r)
  with h1 h2 h3 s show ?thesis by blast
qed

lemma interior_tau_between:
  fixes t :: "'a::linordered_field"
  assumes "t \<in> set (interior_tau N)"
  shows "0 < t \<and> t < 1"
proof -
  from assms obtain j where j: "1 \<le> j" "j < N + 1" and t: "t = of_nat j / of_nat (N + 1)"
    unfolding interior_tau_eq by auto
  have a: "(0::'a) < of_nat j" using j by simp
  have b: "(of_nat j :: 'a) < of_nat (N + 1)" using j by (simp only: of_nat_less_iff)
  have c: "(0::'a) < of_nat (N + 1)" using a b by (rule less_trans)
  have "(0::'a) < of_nat j / of_nat (N + 1)" using a c by (rule divide_pos_pos)
  moreover have "(of_nat j :: 'a) / of_nat (N + 1) < 1"
    using b c by (simp only: divide_less_eq_1_pos)
  ultimately show ?thesis unfolding t by blast
qed

text \<open>
  The claim C7 says that the subsampled evaluation starts from the seeded vector of the
  single-index evaluation. For index 0 it does not: the single-index seed fills the
  first \<open>d+1\<close> slots, the subsampled seed the slot \<open>d\<close> alone.
\<close>

theorem subsampled_seed_differs:
  "basis0_subsampled 0 1 (length [0, 0, 1 / 2, 1, 1 :: real]) 1
     \<noteq> replicate 1 (basis0 0 (length [0, 0, 1 / 2, 1, 1 :: real]) 1 :: real list)"
  by code_simp

text \<open>
  Claim C7, amended. For a knot vector of at least \<open>2*d+2\<close> entries, an index with
  \<open>ind + d + 1\<close> in range and \<open>N > 0\<close>, column \<open>j\<close> of
  \<open>eval_basis_knotindex_subsampled\<close> is the recursion of \<open>eval_basis_knotindex\<close>,
  from the seed of \<open>eval_basis_knotindex\<close>, run at the point
  \<open>knots[ind+d] * (1 - t) + t * knots[ind+d+1]\<close> with \<open>t = j / (N+1)\<close>,
  \<open>j = 1, ..., N\<close>: the points are uniformly spaced and \<open>0 < t < 1\<close>, so both
  endpoints are excluded. The starting matrix is \<open>N\<close> copies of the single-index seed
  for \<open>ind > 0\<close>; for \<open>ind = 0\<close> its columns agree with the single-index seed on the
  slots from \<open>d\<close> on, the only ones the recursion reads.
\<close>

theorem subsampled_agrees:
  fixes knots :: "'a::linordered_field list"
  assumes "2 * d + 2 \<le> length knots" and "ind + d + 1 < length knots" and "0 < N"
  shows "eval_basis_knotindex_subsampled ind N knots d =
           Inr (map (\<lambda>t. basis_recursion knots d
                        (knots ! (ind + d) * (1 - t) + t * knots ! (ind + d + 1))
                        (basis0 ind (length knots) d))
                  (interior_tau N))
       \<and> eval_basis_knotindex ind knots d =
           Inr (basis_recursion knots d (knots ! (ind + d)) (basis0 ind (length knots) d))
       \<and> (interior_tau N :: 'a list) = map (\<lambda>j. of_nat j / of_nat (N + 1)) [1..<N + 1]
       \<and> (\<forall>t \<in> set (interior_tau N :: 'a list). 0 < t \<and> t < 1)
       \<and> (0 < ind \<longrightarrow>
            (basis0_subsampled ind N (length knots) d :: 'a list list)
              = replicate N (basis0 ind (length knots) d))
       \<and> (\<forall>col \<in> set (basis0_subsampled ind N (length knots) d :: 'a list list).
            length col = length knots \<and>
            (\<forall>j < length knots. d \<le> j \<longrightarrow> col ! j = (basis0 ind (length knots) d :: 'a list) ! j))"
proof (intro conjI)
  have dn: "d + 2 \<le> length knots" using assms(1) by simp
  have m: "min (ind + d) (length knots - d - 2) < length knots" using assms by simp
  show "eval_basis_knotindex_subsampled ind N knots d =
      Inr (map (\<lambda>t. basis_recursion knots d
                   (knots ! (ind + d) * (1 - t) + t * knots ! (ind + d + 1))
                   (basis0 ind (length knots) d))
             (interior_tau N))"
    by (rule eval_basis_knotindex_subsampled_eq [OF assms])
  show "eval_basis_knotindex ind knots d =
      Inr (basis_recursion knots d (knots ! (ind + d)) (basis0 ind (length knots) d))"
    using assms by (simp add: eval_basis_knotindex_def)
  show "(interior_tau N :: 'a list) = map (\<lambda>j. of_nat j / of_nat (N + 1)) [1..<N + 1]"
    by (rule interior_tau_eq)
  show "\<forall>t \<in> set (interior_tau N :: 'a list). 0 < t \<and> t < 1"
    using interior_tau_between by blast
  show "0 < ind \<longrightarrow>
      (basis0_subsampled ind N (length knots) d :: 'a list list)
        = replicate N (basis0 ind (length knots) d)"
    by (simp add: basis0_subsampled_def basis0_def)
  show "\<forall>col \<in> set (basis0_subsampled ind N (length knots) d :: 'a list list).
      length col = length knots \<and>
      (\<forall>j < length knots. d \<le> j \<longrightarrow> col ! j = (basis0 ind (length knots) d :: 'a list) ! j)"
  proof (intro ballI conjI allI impI)
    fix col :: "'a list"
    assume "col \<in> set (basis0_subsampled ind N (length knots) d)"
    then have col: "col = (replicate (length knots) 0)[min (ind + d) (length knots - d - 2) := 1 + eps]"
      by (auto simp: basis0_subsampled_def)
    show "length col = length knots" unfolding col by simp
    fix j assume j: "j < length knots" "d \<le> j"
    have "col ! j = (if j = min (ind + d) (length knots - d - 2) then 1 + eps else 0)"
      unfolding col using j m by (simp add: nth_list_update)
    also have "\<dots> = (basis0 ind (length knots) d :: 'a list) ! j"
      unfolding basis0_nth [OF dn j(1)] using j assms(1) by auto
    finally show "col ! j = (basis0 ind (length knots) d :: 'a list) ! j" .
  qed
qed

theorem subsampled_agrees_witness:
  "2 * 1 + 2 \<le> length [0, 0, 1 / 2, 1, 1 :: real] \<and> 0 + 1 + 1 < length [0, 0, 1 / 2, 1, 1 :: real]
   \<and> (0::nat) < 1
   \<and> eval_basis_knotindex_subsampled 0 1 [0, 0, 1 / 2, 1, 1 :: real] 1
       = Inr [[(1 + eps) / 2, (1 + eps) / 2, 0]]"
proof -
  have h1: "2 * 1 + 2 \<le> length [0, 0, 1 / 2, 1, 1 :: real]" by simp
  have h2: "0 + 1 + 1 < length [0, 0, 1 / 2, 1, 1 :: real]" by simp
  have h3: "(0::nat) < 1" by simp
  have v: "map (\<lambda>t. basis_recursion [0, 0, 1 / 2, 1, 1 :: real] 1
        ([0, 0, 1 / 2, 1, 1] ! (0 + 1) * (1 - t) + t * [0, 0, 1 / 2, 1, 1] ! (0 + 1 + 1))
        (basis0 0 (length [0, 0, 1 / 2, 1, 1 :: real]) 1)) (interior_tau 1)
      = [[(1 + eps) / 2, (1 + eps) / 2, 0]]"
    by code_simp
  from subsampled_agrees [OF h1 h2 h3]
  have "eval_basis_knotindex_subsampled 0 1 [0, 0, 1 / 2, 1, 1 :: real] 1 =
      Inr (map (\<lambda>t. basis_recursion [0, 0, 1 / 2, 1, 1 :: real] 1
        ([0, 0, 1 / 2, 1, 1] ! (0 + 1) * (1 - t) + t * [0, 0, 1 / 2, 1, 1] ! (0 + 1 + 1))
        (basis0 0 (length [0, 0, 1 / 2, 1, 1 :: real]) 1)) (interior_tau 1))"
    by blast
  then have "eval_basis_knotindex_subsampled 0 1 [0, 0, 1 / 2, 1, 1 :: real] 1
      = Inr [[(1 + eps) / 2, (1 + eps) / 2, 0]]"
    by (simp only: v)
  with h1 h2 h3 show ?thesis by blast
qed

lemma eval_on_knots_loop_columns:
  assumes single: "\<And>i. i \<in> set idx \<Longrightarrow> \<exists>b. eval_basis_knotindex i knots d = Inr b \<and> P b"
    and sub: "\<And>i. i \<in> set idx \<Longrightarrow> 0 < subsamples \<Longrightarrow> i < length knots - 2 * d - 1 \<Longrightarrow>
        \<exists>bs. eval_basis_knotindex_subsampled i subsamples knots d = Inr bs
           \<and> length bs = subsamples \<and> (\<forall>col \<in> set bs. P col)"
    and acc: "\<forall>col \<in> set (concat basis). P col"
    and tau: "length tau = subsamples"
  shows "\<exists>basis' k'. eval_on_knots_loop xi knots d subsamples tau idx (basis, k) = Inr (basis', k')
      \<and> (\<forall>col \<in> set (concat basis'). P col)
      \<and> length (concat basis') = length (concat basis) + length idx
           + subsamples * length (filter (\<lambda>i. i < length knots - 2 * d - 1) idx)
      \<and> length (concat k') = length (concat k) + length idx
           + subsamples * length (filter (\<lambda>i. i < length knots - 2 * d - 1) idx)"
  using single sub acc
proof (induction idx arbitrary: basis k)
  case Nil
  then show ?case by simp
next
  case (Cons i idx)
  from Cons.prems(1) [of i] obtain b where b: "eval_basis_knotindex i knots d = Inr b" "P b"
    by auto
  have s1: "\<And>j. j \<in> set idx \<Longrightarrow> \<exists>b. eval_basis_knotindex j knots d = Inr b \<and> P b"
    using Cons.prems(1) by simp
  have s2: "\<And>j. j \<in> set idx \<Longrightarrow> 0 < subsamples \<Longrightarrow> j < length knots - 2 * d - 1 \<Longrightarrow>
        \<exists>bs. eval_basis_knotindex_subsampled j subsamples knots d = Inr bs
           \<and> length bs = subsamples \<and> (\<forall>col \<in> set bs. P col)"
    using Cons.prems(2) by simp
  show ?case
  proof (cases "0 < subsamples \<and> i < length knots - 2 * d - 1")
    case True
    with Cons.prems(2) [of i] obtain bs where
      bs: "eval_basis_knotindex_subsampled i subsamples knots d = Inr bs"
        "length bs = subsamples" "\<forall>col \<in> set bs. P col"
      by auto
    let ?basis = "basis @ [[b]] @ [bs]"
    let ?k = "k @ [[xi ! i]] @ [map (\<lambda>t. xi ! i * (1 - t) + t * xi ! (i + 1)) tau]"
    have a: "\<forall>col \<in> set (concat ?basis). P col" using Cons.prems(3) b(2) bs(3) by auto
    from Cons.IH [OF s1 s2 a, of ?k] show ?thesis
      using True b bs tau by (simp add: algebra_simps)
  next
    case False
    let ?basis = "basis @ [[b]]"
    let ?k = "k @ [[xi ! i]]"
    have a: "\<forall>col \<in> set (concat ?basis). P col" using Cons.prems(3) b(2) by auto
    from Cons.IH [OF s1 s2 a, of ?k] show ?thesis
      using False b by auto
  qed
qed

lemma filter_upt_less: "m \<le> n \<Longrightarrow> length (filter (\<lambda>i. i < m) [0..<n]) = m"
proof -
  assume "m \<le> n"
  then have "filter (\<lambda>i. i < m) [0..<n] = [0..<m]"
  proof (induction n)
    case 0
    then show ?case by simp
  next
    case (Suc n)
    then show ?case by (cases "m = Suc n") auto
  qed
  then show ?thesis by simp
qed

lemma try_evalf_id:
  assumes "\<And>m v. evalf m = Inr v \<Longrightarrow> v = m"
  shows "try_evalf evalf m = m"
  using assms [of m] by (cases "evalf m") (simp_all add: try_evalf_def)

lemma eps_small: "\<bar>(1 + eps) - 1 :: 'a::linordered_field\<bar> \<le> 1 / 10 ^ 9"
proof -
  have "(10::'a) ^ 9 \<le> 2 ^ 52" by simp
  then have "(1::'a) / 2 ^ 52 \<le> 1 / 10 ^ 9" by (intro divide_left_mono) simp_all
  then show ?thesis by (simp add: eps_def)
qed

text \<open>
  Claim C2. For strictly increasing breakpoints \<open>xi\<close> with more than \<open>d\<close> entries, a
  degree \<open>d\<close> of at least 1 and any number of subsamples, \<open>eval_on_knots\<close> returns a
  basis matrix with one column per evaluation point (the \<open>n\<close> breakpoints and the
  subsamples of the \<open>n - 1\<close> segments) and \<open>n + d - 1\<close> rows, and every column sums to
  \<open>1 + eps\<close>, which is within \<open>1e-9\<close> of 1. The numeric reduction \<open>evalf\<close> is any
  function that returns the matrix it is given when it succeeds (a numeric matrix
  reduces to itself).
\<close>

theorem partition_of_unity:
  fixes xi :: "'a::linordered_field list"
  assumes inc: "sorted_wrt (<) xi" and n: "d < length xi" and d: "1 \<le> d"
    and ev: "\<And>m v. evalf m = Inr v \<Longrightarrow> v = m"
  shows "\<exists>k basis. eval_on_knots evalf xi d subsamples = Inr (k, basis)
     \<and> length basis = length xi + (length xi - 1) * subsamples
     \<and> length k = length basis
     \<and> (\<forall>col \<in> set basis. length col = length xi + d - 1 \<and> sum_list col = 1 + eps
           \<and> \<bar>sum_list col - 1\<bar> \<le> 1 / 10 ^ 9)"
proof -
  let ?knots = "replicate d (xi ! 0) @ xi @ replicate d (last xi)"
  let ?P = "\<lambda>col :: 'a list. length col = length ?knots - d - 1 \<and> sum_list col = 1 + eps"
  let ?tau = "interior_tau subsamples :: 'a list"
  have n2: "2 \<le> length xi" using n d by simp
  have ne: "xi \<noteq> []" using n by auto
  have G: "2 * d + 2 \<le> length ?knots" using n2 by simp
  have nd: "nondegenerate ?knots d" by (rule clamped_nondegenerate [OF inc n2])
  have idx: "length ?knots - 2 * d = length xi" by simp
  have single: "\<exists>b. eval_basis_knotindex i ?knots d = Inr b \<and> ?P b"
    if "i \<in> set [0..<length xi]" for i
  proof -
    have "i + d < length ?knots" using that by simp
    from eval_basis_knotindex_column [OF G d nd this] show ?thesis by blast
  qed
  have sub: "\<exists>bs. eval_basis_knotindex_subsampled i subsamples ?knots d = Inr bs
           \<and> length bs = subsamples \<and> (\<forall>col \<in> set bs. ?P col)"
    if "i \<in> set [0..<length xi]" and "0 < subsamples" and "i < length ?knots - 2 * d - 1" for i
  proof -
    have "i + d + 1 < length ?knots" using that by simp
    from eval_basis_knotindex_subsampled_columns [OF G d nd this that(2)] show ?thesis by blast
  qed
  have acc: "\<forall>col \<in> set (concat ([] :: 'a list list list)). ?P col" by simp
  from eval_on_knots_loop_columns [of "[0..<length xi]" ?knots d ?P subsamples "[]" ?tau xi "[]",
      OF single sub acc interior_tau_length]
  obtain basis' k' where
    l: "eval_on_knots_loop xi ?knots d subsamples ?tau [0..<length xi] ([], []) = Inr (basis', k')"
    and p: "\<forall>col \<in> set (concat basis'). ?P col"
    and lb: "length (concat basis') = length (concat ([] :: 'a list list list)) + length [0..<length xi]
           + subsamples * length (filter (\<lambda>i. i < length ?knots - 2 * d - 1) [0..<length xi])"
    and lk: "length (concat k') = length (concat ([] :: 'a list list)) + length [0..<length xi]
           + subsamples * length (filter (\<lambda>i. i < length ?knots - 2 * d - 1) [0..<length xi])"
    by blast
  have f: "length (filter (\<lambda>i. i < length ?knots - 2 * d - 1) [0..<length xi]) = length xi - 1"
    using filter_upt_less [of "length xi - 1" "length xi"] by simp
  have e: "eval_on_knots evalf xi d subsamples = Inr (map (\<lambda>v. [v]) (concat k'), concat basis')"
    using ne l by (simp add: eval_on_knots_def Let_def try_evalf_id [OF ev] del: upt_Suc)
  have c: "length col = length xi + d - 1 \<and> sum_list col = 1 + eps \<and> \<bar>sum_list col - 1\<bar> \<le> 1 / 10 ^ 9"
    if "col \<in> set (concat basis')" for col
  proof -
    from p that have "length col = length ?knots - d - 1" and s: "sum_list col = 1 + eps" by blast+
    then show ?thesis using eps_small [where ?'a = 'a] by simp
  qed
  have lenb: "length (concat basis') = length xi + (length xi - 1) * subsamples"
    using lb f by (simp add: mult.commute)
  have lenk: "length (map (\<lambda>v. [v]) (concat k')) = length (concat basis')"
    using lk lb by simp
  from e c lenb lenk show ?thesis by blast
qed

theorem partition_of_unity_witness:
  "sorted_wrt (<) [0, 1 / 2, 1 :: real] \<and> 1 < length [0, 1 / 2, 1 :: real] \<and> (1::nat) \<le> 1
   \<and> (\<exists>k basis. eval_on_knots (Inr :: real list list \<Rightarrow> unit + real list list) [0, 1 / 2, 1] 1 1
          = Inr (k, basis)
        \<and> length basis = length [0, 1 / 2, 1 :: real] + (length [0, 1 / 2, 1 :: real] - 1) * 1
        \<and> length k = length basis
        \<and> (\<forall>col \<in> set basis. length col = length [0, 1 / 2, 1 :: real] + 1 - 1
              \<and> sum_list col = 1 + eps \<and> \<bar>sum_list col - 1\<bar> \<le> 1 / 10 ^ 9))"
proof -
  have h1: "sorted_wrt (<) [0, 1 / 2, 1 :: real]" by simp
  have h2: "1 < length [0, 1 / 2, 1 :: real]" by simp
  have h3: "(1::nat) \<le> 1" by simp
  have h4: "\<And>m v. (Inr :: real list list \<Rightarrow> unit + real list list) m = Inr v \<Longrightarrow> v = m" by simp
  from partition_of_unity [OF h1 h2 h3 h4, where subsamples = 1] h1 h2 h3 show ?thesis by blast
qed

text \<open>
  Claim C9. For degree 1 and breakpoints \<open>[0, 0.5, 1]\<close> the subsampled evaluation of
  the first segment at its midpoint \<open>x = 0.25\<close> gives the weights \<open>[0.5, 0.5, 0]\<close>
  times \<open>1 + eps\<close>; in the table of \<open>eval_on_knots\<close> with one subsample this is the
  column of the point \<open>0.25\<close>.
\<close>

theorem linear_weights_at_quarter:
  "eval_basis_knotindex_subsampled 0 1 [0, 0, 1 / 2, 1, 1 :: real] 1
     = Inr [map ((*) (1 + eps)) [1 / 2, 1 / 2, 0]]
   \<and> eval_on_knots (Inr :: real list list \<Rightarrow> unit + real list list) [0, 1 / 2, 1] 1 1
     = Inr ([[0], [1 / 4], [1 / 2], [3 / 4], [1]],
            map (map ((*) (1 + eps)))
              [[1, 0, 0], [1 / 2, 1 / 2, 0], [0, 1, 0], [0, 1 / 2, 1 / 2], [0, 0, 1]])"
  by code_simp

lemma cs_binary_same: "cs_binary c c = Inr c"
  by (cases c) simp_all

lemma cs_binary_DM_right: "cs_binary c DM = Inr c"
  by (cases c) simp_all

lemma basis_step_class_DM:
  "basis_step_class DM DM DM = Inr (MX False)"
  "basis_step_class DM DM (MX False) = Inr (MX False)"
  by (simp_all add: basis_step_class_def cs_bind_def)

lemma basis_step_class_MX:
  "basis_step_class (MX s) (MX s) DM = Inr (MX s)"
  "basis_step_class (MX s) (MX s) (MX s) = Inr (MX s)"
  by (simp_all add: basis_step_class_def cs_bind_def)

lemma basis_step_class_SX: "basis_step_class SX SX DM = Inl TypeError"
  by (simp add: basis_step_class_def cs_bind_def)

lemma basis_recursion_class_fixed:
  "basis_step_class kc xc c = Inr c \<Longrightarrow> basis_recursion_class kc xc n c = Inr c"
  by (induction n) simp_all

lemma basis_recursion_class_Suc:
  assumes "basis_step_class kc xc c0 = Inr c" and "basis_step_class kc xc c = Inr c"
  shows "basis_recursion_class kc xc (Suc n) c0 = Inr c"
  using assms by (simp add: basis_recursion_class_fixed)

text \<open>The class of the columns that the two evaluation functions return.\<close>

lemma eval_basis_knotindex_class_eq:
  "eval_basis_knotindex_class DM d = Inr (if d = 0 then DM else MX False)"
  "eval_basis_knotindex_class (MX s) d = Inr (if d = 0 then DM else MX s)"
  "eval_basis_knotindex_class SX d = (if d = 0 then Inr DM else Inl TypeError)"
  by (cases d; simp add: eval_basis_knotindex_class_def basis_recursion_class_fixed
      basis_step_class_DM basis_step_class_MX basis_step_class_SX)+

lemma eval_basis_knotindex_subsampled_class_eq:
  "eval_basis_knotindex_subsampled_class DM d = Inr (if d = 0 then DM else MX False)"
  "eval_basis_knotindex_subsampled_class (MX s) d = Inr (if d = 0 then DM else MX s)"
  "eval_basis_knotindex_subsampled_class SX d = (if d = 0 then Inr DM else Inl TypeError)"
  by (cases d; simp add: eval_basis_knotindex_subsampled_class_def cs_bind_def
      basis_recursion_class_fixed basis_step_class_DM basis_step_class_MX basis_step_class_SX)+

lemma hcat_class_same:
  "cs \<noteq> [] \<Longrightarrow> set cs \<subseteq> {c} \<Longrightarrow> hcat_class cs = Inr c"
proof (induction cs)
  case Nil
  then show ?case by simp
next
  case (Cons a cs)
  then have a: "a = c" by simp
  show ?case
  proof (cases "cs = []")
    case True
    then show ?thesis using a by (simp add: cs_binary_DM_right)
  next
    case False
    with Cons show ?thesis using a by (simp add: cs_binary_same)
  qed
qed

lemma eval_on_knots_loop_class_ok:
  assumes "eval_basis_knotindex_class kc d = Inr b"
    and "eval_basis_knotindex_subsampled_class kc d = Inr b"
  shows "\<exists>basis' k'. eval_on_knots_loop_class xc kc d subsamples numel idx (basis, k) = Inr (basis', k')
      \<and> set basis' \<subseteq> set basis \<union> {b} \<and> set k' \<subseteq> set k \<union> {xc}
      \<and> (idx \<noteq> [] \<longrightarrow> basis' \<noteq> [] \<and> k' \<noteq> [])"
proof (induction idx arbitrary: basis k)
  case Nil
  then show ?case by auto
next
  case (Cons i idx)
  have kk: "cs_bind (cs_binary xc DM) (\<lambda>a. cs_bind (cs_binary DM xc) (cs_binary a)) = Inr xc"
    by (simp add: cs_bind_def cs_binary_DM_right cs_binary_same)
  show ?case
  proof (cases "subsamples > 0 \<and> i < numel - 2 * d - 1")
    case True
    from Cons.IH [of "basis @ [b] @ [b]" "k @ [xc] @ [xc]"]
    obtain basis' k' where
      "eval_on_knots_loop_class xc kc d subsamples numel idx (basis @ [b] @ [b], k @ [xc] @ [xc])
         = Inr (basis', k')"
      "set basis' \<subseteq> set (basis @ [b] @ [b]) \<union> {b}" "set k' \<subseteq> set (k @ [xc] @ [xc]) \<union> {xc}"
      "idx \<noteq> [] \<longrightarrow> basis' \<noteq> [] \<and> k' \<noteq> []"
      by blast
    moreover have "idx = [] \<Longrightarrow> basis' \<noteq> [] \<and> k' \<noteq> []"
      using calculation(1) by auto
    ultimately show ?thesis using True assms kk by auto
  next
    case False
    from Cons.IH [of "basis @ [b]" "k @ [xc]"]
    obtain basis' k' where
      "eval_on_knots_loop_class xc kc d subsamples numel idx (basis @ [b], k @ [xc]) = Inr (basis', k')"
      "set basis' \<subseteq> set (basis @ [b]) \<union> {b}" "set k' \<subseteq> set (k @ [xc]) \<union> {xc}"
      "idx \<noteq> [] \<longrightarrow> basis' \<noteq> [] \<and> k' \<noteq> []"
      by blast
    moreover have "idx = [] \<Longrightarrow> basis' \<noteq> [] \<and> k' \<noteq> []"
      using calculation(1) by auto
    ultimately show ?thesis using False assms by auto
  qed
qed

lemma eval_on_knots_loop_total:
  fixes xi :: "'a::field list"
  assumes "2 \<le> length xi"
  shows "\<exists>basis k. eval_on_knots_loop xi (replicate d (xi ! 0) @ xi @ replicate d (last xi)) d
           subsamples (interior_tau subsamples) [0..<length xi] ([], []) = Inr (basis, k)"
proof -
  let ?knots = "replicate d (xi ! 0) @ xi @ replicate d (last xi)"
  let ?tau = "interior_tau subsamples :: 'a list"
  have single: "\<exists>b. eval_basis_knotindex i ?knots d = Inr b \<and> True"
    if "i \<in> set [0..<length xi]" for i
    using that assms by (simp add: eval_basis_knotindex_def)
  have sub: "\<exists>bs. eval_basis_knotindex_subsampled i subsamples ?knots d = Inr bs
           \<and> length bs = subsamples \<and> (\<forall>col \<in> set bs. True)"
    if "i \<in> set [0..<length xi]" and "0 < subsamples" and "i < length ?knots - 2 * d - 1" for i
  proof -
    have G: "2 * d + 2 \<le> length ?knots" using assms by simp
    have "i + d + 1 < length ?knots" using that by simp
    from eval_basis_knotindex_subsampled_eq [OF G this that(2)] show ?thesis
      by (simp add: interior_tau_length)
  qed
  have acc: "\<forall>col \<in> set (concat ([] :: 'a list list list)). True" by simp
  from eval_on_knots_loop_columns [of "[0..<length xi]" ?knots d "\<lambda>col. True" subsamples "[]" ?tau xi "[]",
      OF single sub acc interior_tau_length]
  show ?thesis by blast
qed

lemma eval_on_knots_typed_ok:
  fixes xi :: "'a::field list"
  assumes n: "2 \<le> length xi"
    and single: "eval_basis_knotindex_class xc d = Inr b"
    and sub: "eval_basis_knotindex_subsampled_class xc d = Inr b"
    and vals: "eval_on_knots_loop xi (replicate d (xi ! 0) @ xi @ replicate d (last xi)) d
           subsamples (interior_tau subsamples) [0..<length xi] ([], []) = Inr (basis, k)"
  shows "eval_on_knots_typed xc xi d subsamples =
     Inr (try_evalf evalf_typed (xc, map (\<lambda>v. [v]) (concat k)),
          try_evalf evalf_typed (b, concat basis))"
proof -
  have ne: "xi \<noteq> []" and idx: "[0..<length xi] \<noteq> []" using n by auto
  have h: "hcat_class [xc, xc, xc] = Inr xc"
    by (rule hcat_class_same) simp_all
  from eval_on_knots_loop_class_ok [OF single sub,
      of xc subsamples "length xi + 2 * d" "[0..<length xi]" "[]" "[]"] idx
  obtain basis_c k_c where
    l: "eval_on_knots_loop_class xc xc d subsamples (length xi + 2 * d) [0..<length xi] ([], [])
        = Inr (basis_c, k_c)"
    and b: "set basis_c \<subseteq> {b}" "basis_c \<noteq> []" and k: "set k_c \<subseteq> {xc}" "k_c \<noteq> []"
    by auto
  have hb: "hcat_class basis_c = Inr b" by (rule hcat_class_same [OF b(2,1)])
  have hk: "hcat_class k_c = Inr xc" by (rule hcat_class_same [OF k(2,1)])
  have len: "d + (length xi + d) = length xi + 2 * d" by simp
  show ?thesis
    using ne vals
    by (simp add: eval_on_knots_typed_def Let_def cs_bind_def h l hb hk len del: upt_Suc hcat_class.simps)
qed

lemma eval_on_knots_typed_SX:
  fixes xi :: "'a::field list"
  assumes n: "2 \<le> length xi" and d: "0 < d"
  shows "eval_on_knots_typed SX xi d subsamples = Inl TypeError"
proof -
  have ne: "xi \<noteq> []" using n by auto
  have "0 < length xi" using n by linarith
  then have u: "[0..<length xi] = 0 # [Suc 0..<length xi]" by (rule upt_conv_Cons)
  from eval_on_knots_loop_total [OF n, of d subsamples] obtain basis k where
    vals: "eval_on_knots_loop xi (replicate d (xi ! 0) @ xi @ replicate d (last xi)) d
           subsamples (interior_tau subsamples) [0..<length xi] ([], []) = Inr (basis, k)"
    by blast
  have h: "hcat_class [SX, SX, SX] = Inr SX" by simp
  have l: "eval_on_knots_loop_class SX SX d subsamples numel [0..<length xi] ([], []) = Inl TypeError"
    for numel
    unfolding u using d by (simp add: eval_basis_knotindex_class_eq)
  show ?thesis
    using ne vals
    by (simp add: eval_on_knots_typed_def Let_def cs_bind_def h l del: upt_Suc hcat_class.simps)
qed

text \<open>
  The claim C8 says that \<open>eval_on_knots\<close> never fails because of symbolic inputs. On
  breakpoints of class \<open>SX\<close> and a degree of at least 1 it does: the accumulators of
  the recursion are \<open>MX\<close>, an \<open>MX\<close> and an \<open>SX\<close> do not combine, and the
  \<open>TypeError\<close> is raised in the loop, before the two \<open>try\<close> blocks.
\<close>

theorem eval_on_knots_SX_raises:
  "eval_on_knots_typed SX [0, 1 / 2, 1 :: real] 1 0 = Inl TypeError"
  by code_simp

text \<open>
  Claim C8, amended. On at least two breakpoints, with \<open>k\<close> and \<open>basis\<close> the
  assembled matrices (what \<open>eval_on_knots\<close> returns when \<open>evalf\<close> raises):
  on numeric breakpoints, a \<open>DM\<close> or an \<open>MX\<close> without free symbols, both results
  are reduced to \<open>DM\<close>, with those values; on \<open>MX\<close> breakpoints with free symbols
  the call does not fail, \<open>evalf\<close> raises on \<open>k\<close> and, for a degree of at least 1,
  on \<open>basis\<close>, and each is returned as it is, an \<open>MX\<close> with the same values (for
  degree 0 the basis is the numeric starting vector, a \<open>DM\<close>); on \<open>SX\<close>
  breakpoints the call raises \<open>TypeError\<close> for a degree of at least 1, and for degree
  0 returns \<open>k\<close> as it is and the numeric basis. The values are the same for every
  class.
\<close>

theorem eval_on_knots_by_class:
  fixes xi :: "'a::field list"
  assumes "2 \<le> length xi"
  shows "\<exists>k basis.
      eval_on_knots (\<lambda>m. Inl ()) xi d subsamples = Inr (k, basis)
    \<and> eval_on_knots_typed DM xi d subsamples = Inr ((DM, k), (DM, basis))
    \<and> eval_on_knots_typed (MX False) xi d subsamples = Inr ((DM, k), (DM, basis))
    \<and> eval_on_knots_typed (MX True) xi d subsamples
        = Inr ((MX True, k), (if d = 0 then DM else MX True, basis))
    \<and> eval_on_knots_typed SX xi d subsamples
        = (if d = 0 then Inr ((SX, k), (DM, basis)) else Inl TypeError)"
proof -
  have ne: "xi \<noteq> []" using assms by auto
  from eval_on_knots_loop_total [OF assms, of d subsamples] obtain basis k where
    vals: "eval_on_knots_loop xi (replicate d (xi ! 0) @ xi @ replicate d (last xi)) d
           subsamples (interior_tau subsamples) [0..<length xi] ([], []) = Inr (basis, k)"
    by blast
  let ?k = "map (\<lambda>v. [v]) (concat k)" and ?b = "concat basis"
  have v: "eval_on_knots (\<lambda>m. Inl ()) xi d subsamples = Inr (?k, ?b)"
    using ne vals by (simp add: eval_on_knots_def Let_def try_evalf_def del: upt_Suc)
  have dm: "eval_on_knots_typed DM xi d subsamples = Inr ((DM, ?k), (DM, ?b))"
    using eval_on_knots_typed_ok [OF assms eval_basis_knotindex_class_eq(1)
        eval_basis_knotindex_subsampled_class_eq(1) vals]
    by (simp add: try_evalf_def evalf_typed_def)
  have mxf: "eval_on_knots_typed (MX False) xi d subsamples = Inr ((DM, ?k), (DM, ?b))"
    using eval_on_knots_typed_ok [OF assms eval_basis_knotindex_class_eq(2)
        eval_basis_knotindex_subsampled_class_eq(2) vals]
    by (simp add: try_evalf_def evalf_typed_def)
  have mxt: "eval_on_knots_typed (MX True) xi d subsamples
      = Inr ((MX True, ?k), (if d = 0 then DM else MX True, ?b))"
    using eval_on_knots_typed_ok [OF assms eval_basis_knotindex_class_eq(2)
        eval_basis_knotindex_subsampled_class_eq(2) vals]
    by (simp add: try_evalf_def evalf_typed_def)
  have sx: "eval_on_knots_typed SX xi d subsamples
      = (if d = 0 then Inr ((SX, ?k), (DM, ?b)) else Inl TypeError)"
  proof (cases "d = 0")
    case True
    have a: "eval_basis_knotindex_class SX d = Inr DM"
      and b: "eval_basis_knotindex_subsampled_class SX d = Inr DM"
      using True by (simp_all add: eval_basis_knotindex_class_eq
          eval_basis_knotindex_subsampled_class_eq)
    show ?thesis
      using eval_on_knots_typed_ok [OF assms a b vals] True
      by (simp add: try_evalf_def evalf_typed_def)
  next
    case False
    then show ?thesis using eval_on_knots_typed_SX [OF assms, of d subsamples] by simp
  qed
  from v dm mxf mxt sx show ?thesis by blast
qed

theorem eval_on_knots_by_class_witness:
  "2 \<le> length [0, 1 / 2, 1 :: real]
   \<and> eval_on_knots_typed DM [0, 1 / 2, 1 :: real] 1 0
       = Inr ((DM, [[0], [1 / 2], [1]]),
              (DM, map (map ((*) (1 + eps))) [[1, 0, 0], [0, 1, 0], [0, 0, 1]]))
   \<and> eval_on_knots_typed (MX True) [0, 1 / 2, 1 :: real] 1 0
       = Inr ((MX True, [[0], [1 / 2], [1]]),
              (MX True, map (map ((*) (1 + eps))) [[1, 0, 0], [0, 1, 0], [0, 0, 1]]))"
proof -
  have h: "2 \<le> length [0, 1 / 2, 1 :: real]" by simp
  have c: "eval_on_knots (\<lambda>m. Inl ()) [0, 1 / 2, 1 :: real] 1 0
      = Inr ([[0], [1 / 2], [1]], map (map ((*) (1 + eps))) [[1, 0, 0], [0, 1, 0], [0, 0, 1]])"
    by code_simp
  from eval_on_knots_by_class [OF h, where d = 1 and subsamples = 0]
  obtain k basis where
    v: "eval_on_knots (\<lambda>m. Inl ()) [0, 1 / 2, 1 :: real] 1 0 = Inr (k, basis)"
    and dm: "eval_on_knots_typed DM [0, 1 / 2, 1 :: real] 1 0 = Inr ((DM, k), (DM, basis))"
    and mx: "eval_on_knots_typed (MX True) [0, 1 / 2, 1 :: real] 1 0
      = Inr ((MX True, k), (if (1::nat) = 0 then DM else MX True, basis))"
    by blast
  from v c have "k = [[0], [1 / 2], [1]]"
    and "basis = map (map ((*) (1 + eps))) [[1, 0, 0], [0, 1, 0], [0, 0, 1]]"
    by simp_all
  with dm mx h show ?thesis by simp
qed

lemma xi_padded_upper:
  assumes "xi \<noteq> []" and "1 \<le> d" and "k < length xi + d - 2"
  shows "(tl xi @ replicate (d - 1) (last xi)) ! k = xi_padded xi d ! (k + d)"
proof -
  have n: "\<not> k + d < length (replicate (d - 1) (xi ! 0))"
    and m: "k + d - length (replicate (d - 1) (xi ! 0)) = k + 1"
    using assms(2) by simp_all
  have "xi_padded xi d ! (k + d) = (xi @ replicate (d - 1) (last xi)) ! (k + 1)"
    unfolding xi_padded_def nth_append [of "replicate (d - 1) (xi ! 0)"] using n m
    by (simp only: if_False)
  also have "\<dots> = (tl xi @ replicate (d - 1) (last xi)) ! k"
  proof -
    from assms(1) obtain x xs where x: "xi = x # xs" by (cases xi) auto
    show ?thesis unfolding x by simp
  qed
  finally show ?thesis by simp
qed

lemma xi_padded_lower:
  assumes "xi \<noteq> []" and "k < length xi + d - 2"
  shows "(replicate (d - 1) (xi ! 0) @ butlast xi) ! k = xi_padded xi d ! k"
proof -
  have "xi_padded xi d = (replicate (d - 1) (xi ! 0) @ butlast xi) @ [last xi] @ replicate (d - 1) (last xi)"
    using assms(1) by (simp add: xi_padded_def)
  moreover have "k < length (replicate (d - 1) (xi ! 0) @ butlast xi)" using assms by simp
  ultimately show ?thesis by (simp only: nth_append if_True)
qed

lemma bspline_derivative_eq:
  fixes c :: "'a::field list list"
  assumes d: "1 \<le> d" and xi: "xi \<noteq> []" and len: "length c = length xi + d - 1"
    and rows: "\<forall>col \<in> set c. length col = r"
  shows "bspline_derivative c xi d =
     Inr (map (\<lambda>k. map (\<lambda>row. of_nat d / (xi_padded xi d ! (k + d) - xi_padded xi d ! k)
                               * (c ! (k + 1) ! row - c ! k ! row)) [0..<r])
            [0..<length xi + d - 2])"
proof -
  let ?A = "tl xi @ replicate (d - 1) (last xi)"
  let ?B = "replicate (d - 1) (xi ! 0) @ butlast xi"
  let ?scale = "map (\<lambda>v. of_nat d / v) (map2 (-) ?A ?B)"
  let ?X = "map (\<lambda>v. replicate r v) ?scale"
  let ?Y = "map2 (map2 (-)) (tl c) (butlast c)"
  let ?n = "length xi + d - 2"
  have c: "c \<noteq> []" using len d xi by (cases xi) auto
  then have r: "length (hd c) = r" using rows by (cases c) auto
  have lx: "length ?X = ?n" using xi d by (cases xi) auto
  have ly: "length ?Y = ?n" using len by simp
  have "bspline_derivative c xi d = Inr (map2 (map2 (*)) ?X ?Y)"
    using d xi c r lx ly by (simp add: bspline_derivative_def cs_times_def Let_def)
  also have "map2 (map2 (*)) ?X ?Y =
      map (\<lambda>k. map (\<lambda>row. of_nat d / (xi_padded xi d ! (k + d) - xi_padded xi d ! k)
                               * (c ! (k + 1) ! row - c ! k ! row)) [0..<r])
            [0..<?n]"
  proof (rule nth_equalityI)
    show "length (map2 (map2 (*)) ?X ?Y) = length (map (\<lambda>k. map (\<lambda>row. of_nat d / (xi_padded xi d ! (k + d) - xi_padded xi d ! k)
                               * (c ! (k + 1) ! row - c ! k ! row)) [0..<r]) [0..<?n])"
      using lx ly by simp
  next
    fix k assume "k < length (map2 (map2 (*)) ?X ?Y)"
    then have k: "k < ?n" using lx ly by simp
    have kc: "k + 1 < length c" "k < length c" using k len by simp_all
    have la: "k < length ?A" "k < length ?B" using k xi lx by (cases xi; simp)+
    have ck: "length (c ! k) = r" "length (c ! (k + 1)) = r" using rows kc by simp_all
    have xk: "?X ! k = replicate r (of_nat d / (xi_padded xi d ! (k + d) - xi_padded xi d ! k))"
      using la xi_padded_upper [OF xi d k] xi_padded_lower [OF xi k] by simp
    have yk: "?Y ! k = map2 (-) (c ! (k + 1)) (c ! k)"
      using kc by (simp add: nth_tl nth_butlast)
    have "map2 (map2 (*)) ?X ?Y ! k = map2 (*) (?X ! k) (?Y ! k)"
      using k lx ly by simp
    also have "\<dots> = map (\<lambda>row. of_nat d / (xi_padded xi d ! (k + d) - xi_padded xi d ! k)
                               * (c ! (k + 1) ! row - c ! k ! row)) [0..<r]"
      unfolding xk yk using ck by (intro nth_equalityI) simp_all
    finally show "map2 (map2 (*)) ?X ?Y ! k = map (\<lambda>k. map (\<lambda>row. of_nat d / (xi_padded xi d ! (k + d) - xi_padded xi d ! k)
                               * (c ! (k + 1) ! row - c ! k ! row)) [0..<r]) [0..<?n] ! k"
      using k by simp
  qed
  finally show ?thesis .
qed

lemma derivative_chain_ok:
  fixes c :: "'a::field list list"
  assumes xi: "xi \<noteq> []"
  shows "length c = length xi + d - 1 \<Longrightarrow> \<forall>col \<in> set c. length col = r \<Longrightarrow>
    \<exists>c0. derivative_chain c xi d = Inr c0 \<and> length c0 = length xi - 1"
proof (induction d arbitrary: c)
  case 0
  then show ?case by simp
next
  case (Suc d)
  have d1: "1 \<le> Suc d" by simp
  let ?c' = "map (\<lambda>k. map (\<lambda>row. of_nat (Suc d) / (xi_padded xi (Suc d) ! (k + Suc d) - xi_padded xi (Suc d) ! k)
                               * (c ! (k + 1) ! row - c ! k ! row)) [0..<r])
            [0..<length xi + Suc d - 2]"
  have e: "bspline_derivative c xi (Suc d) = Inr ?c'"
    by (rule bspline_derivative_eq [OF d1 xi Suc.prems])
  have l: "length ?c' = length xi + d - 1" by simp
  have rr: "\<forall>col \<in> set ?c'. length col = r" by auto
  from Suc.IH [OF l rr] show ?case by (simp only: derivative_chain.simps e sum.case)
qed

text \<open>
  The claim C4 gives the coefficient matrix as many columns as there are breakpoints.
  With three breakpoints, three coefficients and degree 2 the scale row has three
  entries and the difference of neighbouring coefficients has two columns: the
  elementwise product raises a dimension mismatch.
\<close>

theorem bspline_derivative_n_columns_mismatch:
  "bspline_derivative [[0], [1], [2 :: real]] [0, 1, 2] 2 = Inl DimensionMismatch"
  by code_simp

text \<open>
  Claim C4, amended. For \<open>n\<close> breakpoints, a degree \<open>d\<close> of at least 1 and a
  coefficient matrix of \<open>n + d - 1\<close> columns (the number of basis functions) with
  \<open>r\<close> rows, \<open>bspline_derivative\<close> returns a matrix of \<open>n + d - 2\<close> columns and
  \<open>r\<close> rows whose column \<open>k\<close> is
  \<open>d * (c[k+1] - c[k]) / (xi_padded[k+d] - xi_padded[k])\<close>; and applying the operator
  with the degrees \<open>d, d-1, ..., 1\<close> in turn never fails and ends, at degree 0, with
  \<open>n - 1\<close> columns.
\<close>

theorem bspline_derivative_rule:
  fixes c :: "'a::field list list"
  assumes "1 \<le> d" and "xi \<noteq> []" and "length c = length xi + d - 1"
    and "\<forall>col \<in> set c. length col = r"
  shows "\<exists>c'. bspline_derivative c xi d = Inr c' \<and> length c' = length xi + d - 2
     \<and> (\<forall>k < length xi + d - 2. length (c' ! k) = r
           \<and> (\<forall>row < r. c' ! k ! row =
                 of_nat d * (c ! (k + 1) ! row - c ! k ! row)
                   / (xi_padded xi d ! (k + d) - xi_padded xi d ! k)))
     \<and> (\<exists>c0. derivative_chain c xi d = Inr c0 \<and> length c0 = length xi - 1)"
proof -
  let ?c' = "map (\<lambda>k. map (\<lambda>row. of_nat d / (xi_padded xi d ! (k + d) - xi_padded xi d ! k)
                               * (c ! (k + 1) ! row - c ! k ! row)) [0..<r])
            [0..<length xi + d - 2]"
  have e: "bspline_derivative c xi d = Inr ?c'" by (rule bspline_derivative_eq [OF assms])
  have l: "length ?c' = length xi + d - 2" by simp
  have v: "length (?c' ! k) = r
      \<and> (\<forall>row < r. ?c' ! k ! row =
            of_nat d * (c ! (k + 1) ! row - c ! k ! row)
              / (xi_padded xi d ! (k + d) - xi_padded xi d ! k))"
    if "k < length xi + d - 2" for k
    using that by simp
  from e l v derivative_chain_ok [OF assms(2,3,4)] show ?thesis by blast
qed

theorem bspline_derivative_rule_witness:
  "(1::nat) \<le> 2 \<and> [0, 1, 2 :: real] \<noteq> []
   \<and> length [[0], [1], [2], [5 :: real]] = length [0, 1, 2 :: real] + 2 - 1
   \<and> bspline_derivative [[0], [1], [2], [5 :: real]] [0, 1, 2] 2 = Inr [[2], [1], [6]]
   \<and> (\<exists>c0. derivative_chain [[0], [1], [2], [5 :: real]] [0, 1, 2] 2 = Inr c0
         \<and> length c0 = length [0, 1, 2 :: real] - 1)"
proof -
  have h1: "(1::nat) \<le> 2" by simp
  have h2: "[0, 1, 2 :: real] \<noteq> []" by simp
  have h3: "length [[0], [1], [2], [5 :: real]] = length [0, 1, 2 :: real] + 2 - 1" by simp
  have h4: "\<forall>col \<in> set [[0], [1], [2], [5 :: real]]. length col = 1" by simp
  have v: "bspline_derivative [[0], [1], [2], [5 :: real]] [0, 1, 2] 2 = Inr [[2], [1], [6]]"
    by code_simp
  from bspline_derivative_rule [OF h1 h2 h3 h4] h1 h2 h3 v show ?thesis by blast
qed


end
